theory Spec2Isabelle
  imports Complex_Main "HOL-Library.Word"
begin

unbundle bit_operations_syntax

section \<open>The RDTech UM24C driver protocol (src/hardware/rdtech-um/protocol.c)\<close>

text \<open>
  A shallow embedding of \<^verbatim>\<open>protocol.c\<close> and \<^verbatim>\<open>protocol.h\<close>. C structs are records,
  C \<^verbatim>\<open>int\<close> and \<^verbatim>\<open>int64_t\<close> values are \<^typ>\<open>int\<close> (no value of the driver comes near the
  limits of its type: lengths are at most 256, times are milliseconds), bytes are
  \<^typ>\<open>8 word\<close>, a pointer that may be \<^verbatim>\<open>NULL\<close> is an \<^typ>\<open>'a option\<close>. What a function
  logs or sends to the session is returned as a list of \<open>event\<close>s, in the order
  the calls are made.
\<close>

subsection \<open>Single precision floating point\<close>

text \<open>
  A C \<^verbatim>\<open>float\<close> is an IEEE 754 binary32 number. A finite one is represented by its
  value; infinities and NaN are not told apart. \<open>round_binary prec emin\<close> rounds a
  real number to the nearest number with a significand of \<open>prec\<close> bits and a least
  exponent \<open>emin\<close>, ties to even: it scales the magnitude into
  \<open>[2 ^ (prec - 1), 2 ^ prec)\<close> (or stops at the least exponent, where the numbers
  are subnormal) and rounds the scaled value to an integer. The fuel of the scaling
  loop exceeds the exponent range of both formats used here.
\<close>

datatype c_float = Finite real | NonFinite

fun normalize_sig :: "nat \<Rightarrow> nat \<Rightarrow> int \<Rightarrow> real \<Rightarrow> int \<Rightarrow> real \<times> int" where
  "normalize_sig 0 prec emin m e = (m, e)"
| "normalize_sig (Suc k) prec emin m e =
     (if 2 ^ prec \<le> m then normalize_sig k prec emin (m / 2) (e + 1)
      else if m < 2 ^ (prec - 1) \<and> emin < e then normalize_sig k prec emin (2 * m) (e - 1)
      else (m, e))"

definition round_half_even :: "real \<Rightarrow> int" where
  "round_half_even m =
     (let f = \<lfloor>m\<rfloor>; r = m - of_int f
      in if r < 1 / 2 then f else if 1 / 2 < r then f + 1 else if even f then f else f + 1)"

definition pow2 :: "int \<Rightarrow> real" where
  "pow2 e = (if 0 \<le> e then 2 ^ nat e else 1 / 2 ^ nat (- e))"

definition round_binary :: "nat \<Rightarrow> int \<Rightarrow> real \<Rightarrow> real" where
  "round_binary prec emin x =
     (if x = 0 then 0
      else case normalize_sig 2200 prec emin \<bar>x\<bar> 0 of
             (m, e) \<Rightarrow> sgn x * of_int (round_half_even m) * pow2 e)"

definition round_binary64 :: "real \<Rightarrow> real" where
  "round_binary64 x = round_binary 53 (- 1074) x"

definition round_binary32 :: "real \<Rightarrow> c_float" where
  "round_binary32 x =
     (let y = round_binary 24 (- 149) x in if \<bar>y\<bar> < 2 ^ 128 then Finite y else NonFinite)"

text \<open>
  A decimal constant such as \<^verbatim>\<open>0.01\<close> has type \<^verbatim>\<open>double\<close>; initialising a
  \<^verbatim>\<open>float\<close> member with it converts the double to binary32.
\<close>

definition float_of_double_literal :: "real \<Rightarrow> c_float" where
  "float_of_double_literal x = round_binary32 (round_binary64 x)"

text \<open>Conversion of an integer operand to \<^verbatim>\<open>float\<close>, and the product of two floats.\<close>

definition float_of_int :: "int \<Rightarrow> c_float" where
  "float_of_int n = round_binary32 (of_int n)"

fun float_mult :: "c_float \<Rightarrow> c_float \<Rightarrow> c_float" where
  "float_mult (Finite a) (Finite b) = round_binary32 (a * b)"
| "float_mult _ _ = NonFinite"

subsection \<open>Data model (protocol.h)\<close>

type_synonym byte = "8 word"

text \<open>\<^verbatim>\<open>#define RDTECH_UM_BUFSIZE 256\<close>\<close>

definition RDTECH_UM_BUFSIZE :: int where
  "RDTECH_UM_BUFSIZE = 256"

text \<open>
  \<^verbatim>\<open>enum rdtech_um_data_type\<close>. A C enumeration is an integer type, and \<open>get_sample\<close>
  has a \<^verbatim>\<open>default\<close> branch for values that are none of the enumerators, so the
  type tag is kept as the integer it is.
\<close>

definition RDTECH_UM_UINT8 :: int where
  "RDTECH_UM_UINT8 = 0"

definition RDTECH_UM_UINT16 :: int where
  "RDTECH_UM_UINT16 = 1"

definition RDTECH_UM_UINT32 :: int where
  "RDTECH_UM_UINT32 = 2"

text \<open>
  The enumerators of libsigrok's \<^verbatim>\<open>enum sr_mq\<close> and \<^verbatim>\<open>enum sr_unit\<close> that the channel
  table uses; \<open>SR_MQ_0\<close> is the literal \<^verbatim>\<open>0\<close> of the \<^verbatim>\<open>Consumption\<close> row.
\<close>

datatype sr_mq = SR_MQ_0 | SR_MQ_VOLTAGE | SR_MQ_CURRENT | SR_MQ_TEMPERATURE

datatype sr_unit = SR_UNIT_VOLT | SR_UNIT_AMPERE | SR_UNIT_CELSIUS | SR_UNIT_WATT_HOUR

record rdtech_um_channel =
  ch_name :: string
  ch_offset :: int
  ch_type :: int
  ch_scale :: c_float
  ch_digits :: int
  ch_mq :: sr_mq
  ch_unit :: sr_unit

text \<open>
  \<^verbatim>\<open>struct rdtech_um_profile\<close>. The two markers are pointers, tested against
  \<^verbatim>\<open>NULL\<close> before use. The channel table is the array up to its terminating entry
  (the one whose name is \<^verbatim>\<open>NULL\<close>).
\<close>

record rdtech_um_profile =
  model_name :: string
  poll_period :: int
  timeout :: int
  poll_len :: int
  poll_start :: "byte list option"
  poll_start_len :: int
  poll_end :: "byte list option"
  poll_end_len :: int
  channels :: "rdtech_um_channel list"

text \<open>
  Modelled from the spec: libsigrok's \<^verbatim>\<open>struct sr_sw_limits\<close> and its operations
  (sw\_limits.c is not among the sources). The Limits Guard holds the count of completed
  decodes and an optional maximum (\<^verbatim>\<open>0\<close> meaning none); \<open>sr_sw_limits_update_samples_read\<close>
  adds to the count, \<open>sr_sw_limits_check\<close> tells whether the cap is reached. The
  elapsed-time cap plays no part in the properties below and is left out.
\<close>

record sr_sw_limits =
  limit_samples :: nat
  samples_read :: nat

definition sr_sw_limits_update_samples_read :: "sr_sw_limits \<Rightarrow> nat \<Rightarrow> sr_sw_limits" where
  "sr_sw_limits_update_samples_read limits n = limits\<lparr>samples_read := samples_read limits + n\<rparr>"

definition sr_sw_limits_check :: "sr_sw_limits \<Rightarrow> bool" where
  "sr_sw_limits_check limits \<longleftrightarrow> 0 < limit_samples limits \<and> limit_samples limits \<le> samples_read limits"

text \<open>
  \<^verbatim>\<open>struct dev_context\<close>. The members \<^verbatim>\<open>mq\<close>, \<^verbatim>\<open>unit\<close> and \<^verbatim>\<open>mqflags\<close> are never
  read or written by protocol.c and are left out. \<open>buf\<close> is the whole array of
  \<open>RDTECH_UM_BUFSIZE\<close> bytes; the bytes received so far are its first \<open>buflen\<close>.
\<close>

record dev_context =
  profile :: rdtech_um_profile
  limits :: sr_sw_limits
  buf :: "byte list"
  buflen :: int
  cmd_sent_at :: int

text \<open>
  The serial port, as far as the driver sees it: \<open>rx\<close> are the bytes a read can
  return (for a non-blocking read the bytes that have arrived, for a blocking read
  the bytes that arrive before its timeout), in order of arrival; \<open>tx\<close> are the
  bytes written so far; \<open>wr\<close> is what the port makes of the next blocking write:
  a negative error code, or the number of bytes it lets through before the timeout.
\<close>

record sr_serial_dev_inst =
  rx :: "byte list"
  tx :: "byte list"
  wr :: int

text \<open>A channel of the device instance (\<^verbatim>\<open>struct sr_channel\<close>): its index and name.\<close>

datatype sr_channel = Channel nat string

text \<open>
  \<^verbatim>\<open>struct sr_dev_inst\<close>: the driver's context \<^verbatim>\<open>priv\<close> (which \<open>rdtech_um_receive_data\<close>
  tests against \<^verbatim>\<open>NULL\<close>), the serial port \<^verbatim>\<open>conn\<close> and the list of channels.
\<close>

record sr_dev_inst =
  priv :: "dev_context option"
  conn :: sr_serial_dev_inst
  sdi_channels :: "sr_channel list"

subsection \<open>Observable effects\<close>

text \<open>
  The analog packet that \<open>send_channel\<close> hands to \<^verbatim>\<open>sr_session_send\<close>: one sample of
  one channel, with the digits, quantity and unit of the channel's table row.
\<close>

record sr_datafeed_analog =
  an_data :: "c_float list"
  an_num_samples :: nat
  an_digits :: int
  an_spec_digits :: int
  an_mq :: sr_mq
  an_unit :: sr_unit
  an_mqflags :: int
  an_channels :: "sr_channel list"

datatype log_msg =
    Err_unable_to_send_probe_request
  | Err_failed_to_read_probe_response
  | Spew_probe_illegal_start_marker
  | Spew_probe_illegal_end_marker
  | Err_unable_to_send_poll_request
  | Err_illegal_data_type string int
  | Spew_received_poll_packet int
  | Err_unexpected_poll_packet_length int
  | Warn_illegal_poll_header byte
  | Warn_illegal_end_marker

datatype event =
    Log log_msg
  | Session_send sr_datafeed_analog
  | Acquisition_stop

subsection \<open>The device profile\<close>

text \<open>
  Modelled from the spec: the macros \<^verbatim>\<open>RB16\<close> and \<^verbatim>\<open>RB32\<close> of libsigrok-internal.h
  (not among the sources) read a big-endian unsigned integer of 16 and 32 bits at
  a byte address.
\<close>

definition RB16 :: "byte list \<Rightarrow> nat \<Rightarrow> 32 word" where
  "RB16 data off = push_bit 8 (ucast (data ! off)) OR ucast (data ! (off + 1))"

definition RB32 :: "byte list \<Rightarrow> nat \<Rightarrow> 32 word" where
  "RB32 data off =
     push_bit 24 (ucast (data ! off)) OR push_bit 16 (ucast (data ! (off + 1)))
       OR push_bit 8 (ucast (data ! (off + 2))) OR ucast (data ! (off + 3))"

definition RDTECH_UM24C_POLL_LEN :: int where
  "RDTECH_UM24C_POLL_LEN = 0x82"

definition rdtech_um24c_channels :: "rdtech_um_channel list" where
  "rdtech_um24c_channels =
     [\<lparr>ch_name = ''V'', ch_offset = 0x02, ch_type = RDTECH_UM_UINT16,
        ch_scale = float_of_double_literal (1 / 100), ch_digits = 2,
        ch_mq = SR_MQ_VOLTAGE, ch_unit = SR_UNIT_VOLT\<rparr>,
      \<lparr>ch_name = ''I'', ch_offset = 0x04, ch_type = RDTECH_UM_UINT16,
        ch_scale = float_of_double_literal (1 / 1000), ch_digits = 3,
        ch_mq = SR_MQ_CURRENT, ch_unit = SR_UNIT_AMPERE\<rparr>,
      \<lparr>ch_name = ''D+'', ch_offset = 0x60, ch_type = RDTECH_UM_UINT16,
        ch_scale = float_of_double_literal (1 / 100), ch_digits = 2,
        ch_mq = SR_MQ_VOLTAGE, ch_unit = SR_UNIT_VOLT\<rparr>,
      \<lparr>ch_name = ''D-'', ch_offset = 0x62, ch_type = RDTECH_UM_UINT16,
        ch_scale = float_of_double_literal (1 / 100), ch_digits = 2,
        ch_mq = SR_MQ_VOLTAGE, ch_unit = SR_UNIT_VOLT\<rparr>,
      \<lparr>ch_name = ''Temp'', ch_offset = 0x0A, ch_type = RDTECH_UM_UINT16,
        ch_scale = float_of_double_literal 1, ch_digits = 0,
        ch_mq = SR_MQ_TEMPERATURE, ch_unit = SR_UNIT_CELSIUS\<rparr>,
      \<lparr>ch_name = ''Consumption'', ch_offset = 0x6a, ch_type = RDTECH_UM_UINT32,
        ch_scale = float_of_double_literal (1 / 1000), ch_digits = 3,
        ch_mq = SR_MQ_0, ch_unit = SR_UNIT_WATT_HOUR\<rparr>]"

definition rdtech_um24c_profile :: rdtech_um_profile where
  "rdtech_um24c_profile =
     \<lparr>model_name = ''UM24C'',
      poll_period = 100,
      timeout = 1000,
      poll_len = RDTECH_UM24C_POLL_LEN,
      poll_start = Some [0x09, 0x63],
      poll_start_len = 2,
      poll_end = Some [0xff, 0xf1],
      poll_end_len = 2,
      channels = rdtech_um24c_channels\<rparr>"

subsection \<open>The sample decoder\<close>

text \<open>
  \<open>get_sample\<close>: the value of one channel, read from the receive buffer. The integer
  read is converted to \<^verbatim>\<open>float\<close> and multiplied by the scale in single precision.
  A type tag that is none of the three enumerators logs an error and gives \<^verbatim>\<open>0.0f\<close>.
\<close>

definition get_sample :: "dev_context \<Rightarrow> rdtech_um_channel \<Rightarrow> c_float \<times> event list" where
  "get_sample devc ch_meta =
     (let data = buf devc; off = nat (ch_offset ch_meta)
      in if ch_type ch_meta = RDTECH_UM_UINT8
           then (float_mult (float_of_int (uint (data ! off))) (ch_scale ch_meta), [])
         else if ch_type ch_meta = RDTECH_UM_UINT16
           then (float_mult (float_of_int (uint (RB16 data off))) (ch_scale ch_meta), [])
         else if ch_type ch_meta = RDTECH_UM_UINT32
           then (float_mult (float_of_int (uint (RB32 data off))) (ch_scale ch_meta), [])
         else (Finite 0, [Log (Err_illegal_data_type (ch_name ch_meta) (ch_type ch_meta))]))"

text \<open>
  \<open>send_channel\<close>: builds the analog packet of one channel (\<^verbatim>\<open>sr_analog_init\<close> with the
  channel's digits, then the meaning and the spec) around the sample and sends it.
\<close>

definition send_channel :: "dev_context \<Rightarrow> rdtech_um_channel \<Rightarrow> sr_channel \<Rightarrow> event list" where
  "send_channel devc ch_meta ch =
     (case get_sample devc ch_meta of
        (data, logged) \<Rightarrow>
          logged @
          [Session_send \<lparr>an_data = [data], an_num_samples = 1,
             an_digits = ch_digits ch_meta, an_spec_digits = ch_digits ch_meta,
             an_mq = ch_mq ch_meta, an_unit = ch_unit ch_meta, an_mqflags = 0,
             an_channels = [ch]\<rparr>])"

text \<open>
  The loop of \<open>handle_poll_data\<close> over the device's channel list: the \<open>i\<close>-th channel
  is sent with the \<open>i\<close>-th row of the profile's table.
\<close>

fun send_channels :: "dev_context \<Rightarrow> nat \<Rightarrow> sr_channel list \<Rightarrow> event list" where
  "send_channels devc i [] = []"
| "send_channels devc i (ch # chs) =
     send_channel devc (channels (profile devc) ! i) ch @ send_channels devc (Suc i) chs"

definition handle_poll_data :: "sr_channel list \<Rightarrow> dev_context \<Rightarrow> dev_context \<times> event list" where
  "handle_poll_data chs devc =
     (if buflen devc \<noteq> poll_len (profile devc)
      then (devc, [Log (Spew_received_poll_packet (buflen devc)),
                   Log (Err_unexpected_poll_packet_length (buflen devc))])
      else (devc\<lparr>limits := sr_sw_limits_update_samples_read (limits devc) 1\<rparr>,
            Log (Spew_received_poll_packet (buflen devc)) # send_channels devc 0 chs))"

subsection \<open>Library functions the driver calls\<close>

text \<open>
  \<^verbatim>\<open>memcmp\<close> over the first \<open>n\<close> bytes: zero when they agree, else the sign of the
  first difference. The callers only test the result against zero. (Where a list is
  shorter than \<open>n\<close> the C code would read out of bounds; the profiles considered
  below exclude it.)
\<close>

fun memcmp :: "byte list \<Rightarrow> byte list \<Rightarrow> nat \<Rightarrow> int" where
  "memcmp (x # xs) (y # ys) (Suc n) =
     (if x = y then memcmp xs ys n else if x < y then - 1 else 1)"
| "memcmp _ _ _ = 0"

text \<open>
  \<^verbatim>\<open>memmove(a + dst, a + src, n)\<close> inside one array \<open>a\<close>: the \<open>n\<close> bytes from
  position \<open>src\<close> are copied to position \<open>dst\<close>, the other bytes stay.
\<close>

definition memmove :: "byte list \<Rightarrow> nat \<Rightarrow> nat \<Rightarrow> nat \<Rightarrow> byte list" where
  "memmove a dst src n = take dst a @ take n (drop src a) @ drop (dst + n) a"

text \<open>
  Modelled from the spec: the transport's blocking write-with-timeout and blocking
  read-with-timeout (libsigrok's serial.c is not among the sources). Both return the
  number of bytes transferred, or a negative error code.
\<close>

definition serial_write_blocking ::
  "sr_serial_dev_inst \<Rightarrow> byte list \<Rightarrow> int \<times> sr_serial_dev_inst" where
  "serial_write_blocking serial data =
     (if wr serial < 0 then (wr serial, serial)
      else let sent = take (nat (wr serial)) data
           in (int (length sent), serial\<lparr>tx := tx serial @ sent\<rparr>))"

definition serial_read_blocking ::
  "sr_serial_dev_inst \<Rightarrow> int \<Rightarrow> int \<times> byte list \<times> sr_serial_dev_inst" where
  "serial_read_blocking serial count =
     (let got = take (nat count) (rx serial)
      in (int (length got), got, serial\<lparr>rx := drop (nat count) (rx serial)\<rparr>))"

text \<open>
  \<^verbatim>\<open>g_free\<close> releases memory that came from the allocator. Handing it the address of
  an object with automatic storage is undefined behaviour (the C library aborts the
  process when it detects it), which is an outcome of its own.
\<close>

datatype storage = Allocated | Automatic

datatype 'a outcome = Returns 'a | Invalid_free

definition g_free :: "storage \<Rightarrow> unit outcome" where
  "g_free mem = (case mem of Allocated \<Rightarrow> Returns () | Automatic \<Rightarrow> Invalid_free)"

text \<open>Integer division in C truncates towards zero.\<close>

definition c_div :: "int \<Rightarrow> int \<Rightarrow> int" where
  "c_div a b = (if (0 \<le> a) = (0 \<le> b) then \<bar>a\<bar> div \<bar>b\<bar> else - (\<bar>a\<bar> div \<bar>b\<bar>))"

definition SR_OK :: int where
  "SR_OK = 0"

definition SR_ERR :: int where
  "SR_ERR = - 1"

definition TRUE :: int where
  "TRUE = 1"

definition G_IO_IN :: int where
  "G_IO_IN = 1"

subsection \<open>Probe and poll\<close>

text \<open>
  \<open>rdtech_um_probe\<close>. The response is read into the local array \<^verbatim>\<open>buf\<close> (here
  \<open>probe_buf\<close>); on a short read the function passes that array to \<^verbatim>\<open>g_free\<close>
  before it returns.
\<close>

definition rdtech_um_probe ::
  "sr_serial_dev_inst \<Rightarrow> rdtech_um_profile option outcome \<times> sr_serial_dev_inst \<times> event list" where
  "rdtech_um_probe serial =
     (let p = rdtech_um24c_profile
      in case serial_write_blocking serial [0xf0] of
           (written, serial1) \<Rightarrow>
             if written < 0
             then (Returns None, serial1, [Log Err_unable_to_send_probe_request])
             else case serial_read_blocking serial1 (poll_len p) of
               (len, probe_buf, serial2) \<Rightarrow>
                 if len \<noteq> poll_len p
                 then (case g_free Automatic of
                         Invalid_free \<Rightarrow>
                           (Invalid_free, serial2, [Log Err_failed_to_read_probe_response])
                       | Returns _ \<Rightarrow>
                           (Returns None, serial2, [Log Err_failed_to_read_probe_response]))
                 else if poll_start p \<noteq> None
                         \<and> memcmp probe_buf (the (poll_start p)) (nat (poll_start_len p)) \<noteq> 0
                 then (Returns None, serial2, [Log Spew_probe_illegal_start_marker])
                 else let end_magic = drop (nat (poll_len p - poll_end_len p)) probe_buf
                      in if poll_end p \<noteq> None
                            \<and> memcmp end_magic (the (poll_end p)) (nat (poll_end_len p)) \<noteq> 0
                         then (Returns None, serial2, [Log Spew_probe_illegal_end_marker])
                         else (Returns (Some p), serial2, []))"

text \<open>
  \<open>rdtech_um_poll\<close>; \<open>t\<close> is what \<^verbatim>\<open>g_get_monotonic_time()\<close> returns (microseconds).
\<close>

definition rdtech_um_poll ::
  "int \<Rightarrow> dev_context \<Rightarrow> sr_serial_dev_inst \<Rightarrow> int \<times> dev_context \<times> sr_serial_dev_inst \<times> event list" where
  "rdtech_um_poll t devc serial =
     (case serial_write_blocking serial [0xf0] of
        (written, serial1) \<Rightarrow>
          if written < 0
          then (SR_ERR, devc, serial1, [Log Err_unable_to_send_poll_request])
          else (SR_OK, devc\<lparr>cmd_sent_at := c_div t 1000\<rparr>, serial1, []))"

subsection \<open>The frame assembler\<close>

text \<open>
  The body of the loop of \<open>recv_poll_data\<close> once a byte \<open>b\<close> has been read to
  \<^verbatim>\<open>devc->buf + devc->buflen\<close>: the length grows by one, and when it reaches the length
  of a defined start marker that the buffer does not begin with, the first byte is
  reported and dropped (\<^verbatim>\<open>buflen--\<close>, then \<^verbatim>\<open>memmove(buf, buf + 1, buflen)\<close>).
\<close>

definition recv_poll_step :: "dev_context \<Rightarrow> byte \<Rightarrow> dev_context \<times> event list" where
  "recv_poll_step devc b =
     (let p = profile devc;
          devc1 = devc\<lparr>buf := (buf devc)[nat (buflen devc) := b], buflen := buflen devc + 1\<rparr>
      in if poll_start p \<noteq> None \<and> buflen devc1 = poll_start_len p
            \<and> memcmp (buf devc1) (the (poll_start p)) (nat (poll_start_len p)) \<noteq> 0
         then (devc1\<lparr>buflen := buflen devc1 - 1,
                      buf := memmove (buf devc1) 0 1 (nat (buflen devc1 - 1))\<rparr>,
               [Log (Warn_illegal_poll_header (buf devc1 ! 0))])
         else (devc1, []))"

text \<open>
  The loop itself, over the bytes pending on the port: \<^verbatim>\<open>serial_read_nonblocking\<close> of
  one byte takes the first pending byte, or returns less than 1 when there is none,
  and then the function returns. The first component of the result tells whether
  the function returned from inside the loop.
\<close>

fun recv_poll_loop :: "dev_context \<Rightarrow> byte list \<Rightarrow> bool \<times> dev_context \<times> byte list \<times> event list" where
  "recv_poll_loop devc [] =
     (if buflen devc < poll_len (profile devc) then (True, devc, [], [])
      else (False, devc, [], []))"
| "recv_poll_loop devc (b # pending) =
     (if buflen devc < poll_len (profile devc)
      then (case recv_poll_step devc b of
              (devc1, logged) \<Rightarrow>
                (case recv_poll_loop devc1 pending of
                   (returned, devc2, pending2, logged2) \<Rightarrow>
                     (returned, devc2, pending2, logged @ logged2)))
      else (False, devc, b # pending, []))"

text \<open>The part of \<open>recv_poll_data\<close> after the loop.\<close>

definition recv_poll_end :: "sr_channel list \<Rightarrow> dev_context \<Rightarrow> dev_context \<times> event list" where
  "recv_poll_end chs devc =
     (let p = profile devc
      in if buflen devc = poll_len p
         then let end_magic = drop (nat (buflen devc - poll_end_len p)) (buf devc)
              in if poll_end p \<noteq> None
                    \<and> memcmp end_magic (the (poll_end p)) (nat (poll_end_len p)) = 0
                 then (case handle_poll_data chs devc of
                         (devc1, sent) \<Rightarrow> (devc1\<lparr>buflen := 0\<rparr>, sent))
                 else (devc\<lparr>buflen := 0\<rparr>, [Log Warn_illegal_end_marker])
         else (devc, []))"

text \<open>
  \<open>recv_poll_data\<close>, given the pieces of \<^verbatim>\<open>sdi\<close> it uses: the channel list
  \<^verbatim>\<open>sdi->channels\<close>, the context \<^verbatim>\<open>sdi->priv\<close> and the port.
\<close>

definition recv_poll_data ::
  "sr_channel list \<Rightarrow> dev_context \<Rightarrow> sr_serial_dev_inst
     \<Rightarrow> dev_context \<times> sr_serial_dev_inst \<times> event list" where
  "recv_poll_data chs devc serial =
     (case recv_poll_loop devc (rx serial) of
        (returned, devc1, pending, logged) \<Rightarrow>
          if returned then (devc1, serial\<lparr>rx := pending\<rparr>, logged)
          else (case recv_poll_end chs devc1 of
                  (devc2, sent) \<Rightarrow> (devc2, serial\<lparr>rx := pending\<rparr>, logged @ sent)))"

subsection \<open>The receive callback\<close>

text \<open>
  \<open>rdtech_um_receive_data\<close>; \<open>t_now\<close> and \<open>t_poll\<close> are the readings of the monotonic
  clock taken in the callback and in \<open>rdtech_um_poll\<close>.
  Modelled from the spec: \<^verbatim>\<open>sr_dev_acquisition_stop\<close> (not among the sources) is the
  stop signal to the acquisition controller, here the event \<open>Acquisition_stop\<close>.
\<close>

definition rdtech_um_receive_data ::
  "int \<Rightarrow> int \<Rightarrow> int \<Rightarrow> sr_dev_inst option \<Rightarrow> int \<times> sr_dev_inst option \<times> event list" where
  "rdtech_um_receive_data revents t_now t_poll cb_data =
     (case cb_data of
        None \<Rightarrow> (TRUE, None, [])
      | Some sdi \<Rightarrow>
          (case priv sdi of
             None \<Rightarrow> (TRUE, Some sdi, [])
           | Some devc \<Rightarrow>
               (case (if revents = G_IO_IN
                      then recv_poll_data (sdi_channels sdi) devc (conn sdi)
                      else (devc, conn sdi, [])) of
                  (devc1, serial1, logged) \<Rightarrow>
                    if sr_sw_limits_check (limits devc1)
                    then (TRUE, Some (sdi\<lparr>priv := Some devc1, conn := serial1\<rparr>),
                          logged @ [Acquisition_stop])
                    else let now = c_div t_now 1000;
                             elapsed = now - cmd_sent_at devc1
                         in if elapsed > poll_period (profile devc1)
                            then (case rdtech_um_poll t_poll devc1 serial1 of
                                    (ret, devc2, serial2, logged2) \<Rightarrow>
                                      (TRUE, Some (sdi\<lparr>priv := Some devc2, conn := serial2\<rparr>),
                                       logged @ logged2))
                            else (TRUE, Some (sdi\<lparr>priv := Some devc1, conn := serial1\<rparr>),
                                  logged))))"

subsection \<open>Notions used to state the properties\<close>

text \<open>The bytes received so far: the filled part of the buffer.\<close>

definition received :: "dev_context \<Rightarrow> byte list" where
  "received devc = take (nat (buflen devc)) (buf devc)"

text \<open>
  What the code relies on in a profile: a positive frame length that fits the
  buffer, markers that are as long as the profile says, and room for both in a frame.
\<close>

definition profile_ok :: "rdtech_um_profile \<Rightarrow> bool" where
  "profile_ok p \<longleftrightarrow>
     0 < poll_len p \<and> poll_len p \<le> RDTECH_UM_BUFSIZE
     \<and> 0 \<le> poll_start_len p \<and> 0 \<le> poll_end_len p
     \<and> poll_start_len p + poll_end_len p \<le> poll_len p
     \<and> (case poll_start p of None \<Rightarrow> True | Some s \<Rightarrow> int (length s) = poll_start_len p)
     \<and> (case poll_end p of None \<Rightarrow> True | Some e \<Rightarrow> int (length e) = poll_end_len p)"

definition buffer_ok :: "dev_context \<Rightarrow> bool" where
  "buffer_ok devc \<longleftrightarrow> int (length (buf devc)) = RDTECH_UM_BUFSIZE"

text \<open>
  A frame with a correct start marker (where the profile defines one) and the end
  marker of the profile at its tail; a frame that differs from it in the end marker.
\<close>

definition starts_with_marker :: "rdtech_um_profile \<Rightarrow> byte list \<Rightarrow> bool" where
  "starts_with_marker p f =
     (case poll_start p of None \<Rightarrow> True | Some s \<Rightarrow> take (length s) f = s)"

definition ends_with_marker :: "rdtech_um_profile \<Rightarrow> byte list \<Rightarrow> bool" where
  "ends_with_marker p f =
     (case poll_end p of None \<Rightarrow> False | Some e \<Rightarrow> drop (length f - length e) f = e)"

definition well_formed_frame :: "rdtech_um_profile \<Rightarrow> byte list \<Rightarrow> bool" where
  "well_formed_frame p f \<longleftrightarrow>
     int (length f) = poll_len p \<and> starts_with_marker p f \<and> ends_with_marker p f"

definition corrupted_frame :: "rdtech_um_profile \<Rightarrow> byte list \<Rightarrow> bool" where
  "corrupted_frame p f \<longleftrightarrow>
     int (length f) = poll_len p \<and> starts_with_marker p f \<and> \<not> ends_with_marker p f"

text \<open>
  The bytes \<open>g\<close> precede the first occurrence of the marker \<open>s\<close>: in \<open>g @ s\<close> the
  marker does not occur at any position before \<open>length g\<close>.
\<close>

definition marker_first_after :: "byte list \<Rightarrow> byte list \<Rightarrow> bool" where
  "marker_first_after g s =
     list_all (\<lambda>i. take (length s) (drop i (g @ s)) \<noteq> s) [0..<length g]"

text \<open>
  Bytes arriving one at a time: each byte becomes readable on the port and
  \<open>recv_poll_data\<close> is called for it. The events of the calls are collected.
\<close>

fun feed ::
  "sr_channel list \<Rightarrow> dev_context \<times> sr_serial_dev_inst \<times> event list \<Rightarrow> byte list
     \<Rightarrow> dev_context \<times> sr_serial_dev_inst \<times> event list" where
  "feed chs st [] = st"
| "feed chs (devc, serial, seen) (b # bs) =
     (case recv_poll_data chs devc (serial\<lparr>rx := rx serial @ [b]\<rparr>) of
        (devc1, serial1, logged) \<Rightarrow> feed chs (devc1, serial1, seen @ logged) bs)"

text \<open>
  The number of frames handed to the decoder: \<open>handle_poll_data\<close> logs one
  \<^verbatim>\<open>Received poll packet\<close> line per call.
\<close>

fun is_decode :: "event \<Rightarrow> bool" where
  "is_decode (Log (Spew_received_poll_packet n)) = True"
| "is_decode _ = False"

definition frames_decoded :: "event list \<Rightarrow> nat" where
  "frames_decoded evs = length (filter is_decode evs)"

text \<open>The skipped bytes reported by the start marker check, in order.\<close>

fun skipped :: "event list \<Rightarrow> byte list" where
  "skipped [] = []"
| "skipped (Log (Warn_illegal_poll_header b) # evs) = b # skipped evs"
| "skipped (_ # evs) = skipped evs"

text \<open>
  Modelled from the spec: the event loop of the session (not among the sources).
  It calls \<open>rdtech_um_receive_data\<close> for each event of the source, after the bytes
  that arrived in the meantime have become readable, and stopping the acquisition
  halts all further byte processing and scheduler ticks.
\<close>

record callback =
  cb_revents :: int
  cb_arrived :: "byte list"
  cb_now :: int
  cb_poll_time :: int
  cb_wr :: int

fun run_session :: "sr_dev_inst \<Rightarrow> callback list \<Rightarrow> sr_dev_inst \<times> event list" where
  "run_session sdi [] = (sdi, [])"
| "run_session sdi (cb # cbs) =
     (let port = (conn sdi)\<lparr>rx := rx (conn sdi) @ cb_arrived cb, wr := cb_wr cb\<rparr>
      in case rdtech_um_receive_data (cb_revents cb) (cb_now cb) (cb_poll_time cb)
                (Some (sdi\<lparr>conn := port\<rparr>)) of
           (ret, None, evs) \<Rightarrow> (sdi, evs)
         | (ret, Some sdi1, evs) \<Rightarrow>
             if Acquisition_stop \<in> set evs then (sdi1, evs)
             else (case run_session sdi1 cbs of (sdi2, evs2) \<Rightarrow> (sdi2, evs @ evs2)))"

text \<open>
  The value of a big-endian unsigned integer, as the specification words it, and
  the width in bytes of the three encodings.
\<close>

definition big_endian :: "byte list \<Rightarrow> int" where
  "big_endian bs = foldl (\<lambda>acc b. 256 * acc + uint b) 0 bs"

definition type_width :: "int \<Rightarrow> nat" where
  "type_width t = (if t = RDTECH_UM_UINT8 then 1 else if t = RDTECH_UM_UINT16 then 2 else 4)"

subsection \<open>Concrete instances\<close>

text \<open>The UM24C context at the start of an acquisition, with a sample cap.\<close>

definition um24c_devc :: "nat \<Rightarrow> dev_context" where
  "um24c_devc cap =
     \<lparr>profile = rdtech_um24c_profile,
      limits = \<lparr>limit_samples = cap, samples_read = 0\<rparr>,
      buf = replicate 256 0, buflen = 0, cmd_sent_at = 0\<rparr>"

definition idle_port :: sr_serial_dev_inst where
  "idle_port = \<lparr>rx = [], tx = [], wr = 1\<rparr>"

definition um24c_channel_list :: "sr_channel list" where
  "um24c_channel_list =
     [Channel 0 ''V'', Channel 1 ''I'', Channel 2 ''D+'', Channel 3 ''D-'',
      Channel 4 ''Temp'', Channel 5 ''Consumption'']"

definition um24c_sdi :: "nat \<Rightarrow> sr_dev_inst" where
  "um24c_sdi cap =
     \<lparr>priv = Some (um24c_devc cap), conn = idle_port, sdi_channels = um24c_channel_list\<rparr>"

text \<open>
  Bytes that may precede a frame without being taken for its start: none, or, for a
  profile with a non-empty start marker, bytes before the marker's first occurrence.
\<close>

definition garbage_before :: "rdtech_um_profile \<Rightarrow> byte list \<Rightarrow> bool" where
  "garbage_before p g \<longleftrightarrow>
     g = [] \<or> (case poll_start p of None \<Rightarrow> False
               | Some s \<Rightarrow> s \<noteq> [] \<and> marker_first_after g s)"

text \<open>
  A UM24C response: 1.50 V, 0.100 A, 25 degrees and 1.000 Wh at the offsets of the
  channel table, zeros elsewhere, between the two markers.
\<close>

definition example_frame :: "byte list" where
  "example_frame =
     [0x09, 0x63, 0x00, 0x96, 0x00, 0x64] @ replicate 4 0 @ [0x00, 0x19] @ replicate 94 0
       @ [0x00, 0x00, 0x03, 0xE8] @ replicate 18 0 @ [0xff, 0xf1]"

text \<open>The same response with a damaged end marker.\<close>

definition damaged_frame :: "byte list" where
  "damaged_frame =
     [0x09, 0x63, 0x00, 0x96, 0x00, 0x64] @ replicate 4 0 @ [0x00, 0x19] @ replicate 94 0
       @ [0x00, 0x00, 0x03, 0xE8] @ replicate 18 0 @ [0xff, 0x00]"

text \<open>A callback of the session for which a whole response has arrived.\<close>

definition frame_callback :: callback where
  "frame_callback =
     \<lparr>cb_revents = G_IO_IN, cb_arrived = example_frame, cb_now = 0, cb_poll_time = 0, cb_wr = 1\<rparr>"

text \<open>The UM24C context when the example response has been received.\<close>

definition um24c_received :: dev_context where
  "um24c_received =
     (um24c_devc 0)\<lparr>buf := example_frame @ drop (length example_frame) (buf (um24c_devc 0)),
                     buflen := int (length example_frame)\<rparr>"

text \<open>
  A channel row whose type tag is none of the enumerators, and a context whose
  profile has this row before the rows of the UM24C.
\<close>

definition untyped_channel :: rdtech_um_channel where
  "untyped_channel =
     \<lparr>ch_name = ''X'', ch_offset = 0x02, ch_type = 3,
      ch_scale = float_of_double_literal 1, ch_digits = 0,
      ch_mq = SR_MQ_VOLTAGE, ch_unit = SR_UNIT_VOLT\<rparr>"

definition untyped_devc :: dev_context where
  "untyped_devc =
     um24c_received\<lparr>profile :=
       rdtech_um24c_profile\<lparr>channels := untyped_channel # rdtech_um24c_channels\<rparr>\<rparr>"


text \<open>
  A profile whose start marker overlaps itself (\<open>AA AA\<close>), otherwise that of the
  UM24C, with a well-formed frame of it and a context with an empty buffer.
\<close>

definition overlap_profile :: rdtech_um_profile where
  "overlap_profile = rdtech_um24c_profile\<lparr>poll_start := Some [0xAA, 0xAA]\<rparr>"

definition overlap_frame :: "byte list" where
  "overlap_frame = [0xAA, 0xAA] @ replicate 126 0 @ [0xff, 0xf1]"

definition overlap_devc :: dev_context where
  "overlap_devc = (um24c_devc 0)\<lparr>profile := overlap_profile\<rparr>"

section \<open>Properties\<close>

subsection \<open>The length of the receive buffer\<close>

lemma recv_poll_step_profile: "profile (fst (recv_poll_step devc b)) = profile devc"
  by (simp add: recv_poll_step_def Let_def)

lemma recv_poll_step_buflen:
  "buflen (fst (recv_poll_step devc b)) = buflen devc
     \<or> buflen (fst (recv_poll_step devc b)) = buflen devc + 1"
  by (simp add: recv_poll_step_def Let_def)

lemma recv_poll_loop_bounds:
  assumes "0 \<le> buflen devc" "buflen devc \<le> poll_len (profile devc)"
    and "recv_poll_loop devc pending = (returned, devc', pending', logged)"
  shows "profile devc' = profile devc \<and> 0 \<le> buflen devc'
           \<and> (if returned then buflen devc' < poll_len (profile devc)
               else buflen devc' = poll_len (profile devc))"
  using assms
proof (induction pending arbitrary: devc logged)
  case Nil
  then show ?case by (auto split: if_splits)
next
  case (Cons b pending)
  show ?case
  proof (cases "buflen devc < poll_len (profile devc)")
    case False
    with Cons.prems show ?thesis by auto
  next
    case True
    obtain devc1 logged1 where step: "recv_poll_step devc b = (devc1, logged1)"
      by (cases "recv_poll_step devc b")
    obtain logged2 where loop: "recv_poll_loop devc1 pending = (returned, devc', pending', logged2)"
      using Cons.prems(3) True step by (auto split: prod.splits)
    have p1: "profile devc1 = profile devc"
      using recv_poll_step_profile [of devc b] step by simp
    have b1: "0 \<le> buflen devc1" "buflen devc1 \<le> poll_len (profile devc1)"
      using recv_poll_step_buflen [of devc b] step True Cons.prems(1) p1 by auto
    from Cons.IH [OF b1 loop] p1 show ?thesis by (auto split: if_splits)
  qed
qed

lemma handle_poll_data_profile: "profile (fst (handle_poll_data chs devc)) = profile devc"
  by (simp add: handle_poll_data_def)

lemma recv_poll_end_reset:
  assumes "buflen devc = poll_len (profile devc)"
  shows "buflen (fst (recv_poll_end chs devc)) = 0
           \<and> profile (fst (recv_poll_end chs devc)) = profile devc"
  using assms handle_poll_data_profile [of chs devc]
  by (cases "handle_poll_data chs devc") (simp add: recv_poll_end_def Let_def)

lemma recv_poll_data_bounds:
  assumes "0 \<le> buflen devc" and "buflen devc < poll_len (profile devc)"
    and "recv_poll_data chs devc serial = (devc', serial', logged)"
  shows "0 \<le> buflen devc' \<and> buflen devc' < poll_len (profile devc')
           \<and> profile devc' = profile devc"
proof -
  obtain returned devc1 pending logged1
    where loop: "recv_poll_loop devc (rx serial) = (returned, devc1, pending, logged1)"
    by (cases "recv_poll_loop devc (rx serial)")
  have le: "buflen devc \<le> poll_len (profile devc)"
    using assms(2) by simp
  note inv = recv_poll_loop_bounds [OF assms(1) le loop]
  show ?thesis
  proof (cases returned)
    case True
    with assms(3) loop have "devc' = devc1"
      by (simp add: recv_poll_data_def)
    with inv True show ?thesis by simp
  next
    case False
    with inv have full: "buflen devc1 = poll_len (profile devc1)" by simp
    from assms(3) loop False have "devc' = fst (recv_poll_end chs devc1)"
      by (auto simp: recv_poll_data_def split: prod.splits)
    with recv_poll_end_reset [OF full, of chs] inv assms(1,2) show ?thesis by simp
  qed
qed

text \<open>
  C9. If the fill length of the buffer is at least zero and less than the frame
  length before a call of \<open>recv_poll_data\<close>, it is so after the call, whatever is
  pending on the port: a buffer that becomes full is dispatched or discarded and
  reset within the call, and the fill length never exceeds the frame length.
\<close>

theorem recv_poll_data_buflen_invariant:
  assumes "0 \<le> buflen devc" and "buflen devc < poll_len (profile devc)"
  shows "0 \<le> buflen (fst (recv_poll_data chs devc serial))
           \<and> buflen (fst (recv_poll_data chs devc serial))
               < poll_len (profile (fst (recv_poll_data chs devc serial)))"
  using recv_poll_data_bounds [OF assms, of chs serial]
  by (cases "recv_poll_data chs devc serial") auto

lemmas um24c_defs = um24c_devc_def rdtech_um24c_profile_def RDTECH_UM24C_POLL_LEN_def idle_port_def

theorem recv_poll_data_buflen_invariant_witness:
  "0 \<le> buflen (um24c_devc 0) \<and> buflen (um24c_devc 0) < poll_len (profile (um24c_devc 0))
     \<and> 0 \<le> buflen (fst (recv_poll_data [] (um24c_devc 0) (idle_port\<lparr>rx := [0x09, 0x63, 0x00]\<rparr>)))
     \<and> buflen (fst (recv_poll_data [] (um24c_devc 0) (idle_port\<lparr>rx := [0x09, 0x63, 0x00]\<rparr>)))
         < poll_len (profile (fst (recv_poll_data [] (um24c_devc 0) (idle_port\<lparr>rx := [0x09, 0x63, 0x00]\<rparr>))))"
  using recv_poll_data_buflen_invariant [of "um24c_devc 0" "[]" "idle_port\<lparr>rx := [0x09, 0x63, 0x00]\<rparr>"]
  by (simp add: um24c_defs)


subsection \<open>One byte of the frame assembler\<close>


lemma memcmp_eq_0_iff:
  "n \<le> length a \<Longrightarrow> n \<le> length b \<Longrightarrow> memcmp a b n = 0 \<longleftrightarrow> take n a = take n b"
proof (induction a b n rule: memcmp.induct)
  case (1 x xs y ys n)
  then show ?case by simp
qed simp_all

lemma port_rx_empty: "rx serial = [] \<Longrightarrow> serial\<lparr>rx := []\<rparr> = serial"
  by (cases serial) simp

lemma recv_poll_step_append:
  assumes "buf devc = c @ x # t" and "buflen devc = int (length c)"
  shows "recv_poll_step devc b =
           (if poll_start (profile devc) \<noteq> None
               \<and> int (length c) + 1 = poll_start_len (profile devc)
               \<and> memcmp (c @ b # t) (the (poll_start (profile devc)))
                    (nat (poll_start_len (profile devc))) \<noteq> 0
            then (devc\<lparr>buf := tl (c @ [b]) @ b # t, buflen := int (length c)\<rparr>,
                  [Log (Warn_illegal_poll_header (hd (c @ [b])))])
            else (devc\<lparr>buf := c @ b # t, buflen := int (length c) + 1\<rparr>, []))"
proof -
  have upd: "(c @ x # t)[length c := b] = c @ b # t"
    by (simp add: list_update_append)
  have mv: "memmove (c @ b # t) 0 (Suc 0) (length c) = tl (c @ [b]) @ b # t"
    by (cases c) (simp_all add: memmove_def)
  have hd0: "(c @ b # t) ! 0 = hd (c @ [b])"
    by (cases c) simp_all
  show ?thesis
  proof (cases "int (length c) + 1 = poll_start_len (profile devc)")
    case True
    then have psl: "poll_start_len (profile devc) = int (length c) + 1"
      by simp
    have n1: "nat (int (length c) + 1) = Suc (length c)"
      by simp
    show ?thesis
      using assms by (simp add: recv_poll_step_def Let_def upd mv hd0 psl n1)
  next
    case False
    then show ?thesis
      using assms by (simp add: recv_poll_step_def Let_def upd)
  qed
qed

lemma recv_poll_step_keep:
  assumes "profile_ok (profile devc)"
    and "buf devc = c @ x # t" and "buflen devc = int (length c)"
    and "\<And>s. poll_start (profile devc) = Some s \<Longrightarrow> length s = Suc (length c) \<Longrightarrow> c @ [b] = s"
  shows "recv_poll_step devc b = (devc\<lparr>buf := (c @ [b]) @ t, buflen := int (length (c @ [b]))\<rparr>, [])"
proof (cases "poll_start (profile devc)")
  case None
  then show ?thesis
    using recv_poll_step_append [OF assms(2,3), of b] by simp
next
  case (Some s)
  with assms(1) have len: "int (length s) = poll_start_len (profile devc)"
    by (simp add: profile_ok_def)
  show ?thesis
  proof (cases "length s = Suc (length c)")
    case True
    with assms(4) Some have eq: "c @ [b] = s" by simp
    have "memcmp (c @ b # t) s (length s) = 0"
      using True eq by (subst memcmp_eq_0_iff) auto
    moreover have "nat (poll_start_len (profile devc)) = length s"
      using len by simp
    ultimately show ?thesis
      using recv_poll_step_append [OF assms(2,3), of b] Some by simp
  next
    case False
    then have "int (length c) + 1 \<noteq> poll_start_len (profile devc)"
      using len by linarith
    then show ?thesis
      using recv_poll_step_append [OF assms(2,3), of b] by simp
  qed
qed

lemma recv_poll_step_drop:
  assumes "profile_ok (profile devc)"
    and "buf devc = c @ x # t" and "buflen devc = int (length c)"
    and "poll_start (profile devc) = Some s" and "length s = Suc (length c)" and "c @ [b] \<noteq> s"
  shows "recv_poll_step devc b =
           (devc\<lparr>buf := tl (c @ [b]) @ b # t, buflen := int (length (tl (c @ [b])))\<rparr>,
            [Log (Warn_illegal_poll_header (hd (c @ [b])))])"
proof -
  from assms(1,4) have len: "int (length s) = poll_start_len (profile devc)"
    by (simp add: profile_ok_def)
  have "take (length s) (c @ b # t) = c @ [b]"
    using assms(5) by simp
  then have "memcmp (c @ b # t) s (length s) \<noteq> 0"
    using assms(5,6) by (subst memcmp_eq_0_iff) auto
  moreover have "nat (poll_start_len (profile devc)) = length s"
    using len by simp
  moreover have "int (length c) + 1 = poll_start_len (profile devc)"
    using len assms(5) by simp
  ultimately show ?thesis
    using recv_poll_step_append [OF assms(2,3), of b] assms(4) assms(5) by simp
qed

lemma recv_poll_data_one_byte:
  assumes "buflen devc < poll_len (profile devc)" and "rx serial = []"
    and "recv_poll_step devc b = (devc1, logged)"
  shows "recv_poll_data chs devc (serial\<lparr>rx := rx serial @ [b]\<rparr>) =
           (if buflen devc1 < poll_len (profile devc1) then (devc1, serial, logged)
            else (case recv_poll_end chs devc1 of
                    (devc2, sent) \<Rightarrow> (devc2, serial, logged @ sent)))"
  using assms by (simp add: recv_poll_data_def port_rx_empty split: prod.splits)


subsection \<open>Bytes arriving one at a time\<close>


lemma feed_append: "feed chs st (xs @ ys) = feed chs (feed chs st xs) ys"
proof (induction xs arbitrary: st)
  case Nil
  show ?case by simp
next
  case (Cons b xs)
  obtain devc serial seen where st: "st = (devc, serial, seen)"
    by (cases st)
  show ?case
    unfolding st by (simp add: Cons.IH split: prod.splits)
qed

lemma dev_context_same: "buf devc = a \<Longrightarrow> buflen devc = n \<Longrightarrow> devc\<lparr>buf := a, buflen := n\<rparr> = devc"
  by (cases devc) simp

lemma feed_fill:
  assumes "profile_ok (profile devc)"
    and "buf devc = c @ t" and "buflen devc = int (length c)" and "rx serial = []"
    and "int (length (c @ ys)) < poll_len (profile devc)"
    and "length ys \<le> length t"
    and "\<And>s. poll_start (profile devc) = Some s \<Longrightarrow> length c < length s
           \<Longrightarrow> length s \<le> length (c @ ys) \<Longrightarrow> take (length s) (c @ ys) = s"
  shows "feed chs (devc, serial, seen) ys =
           (devc\<lparr>buf := (c @ ys) @ drop (length ys) t, buflen := int (length (c @ ys))\<rparr>,
            serial, seen)"
  using assms
proof (induction ys arbitrary: devc c t)
  case Nil
  then show ?case by (simp add: dev_context_same)
next
  case (Cons b ys)
  from Cons.prems(6) obtain x t0 where t: "t = x # t0"
    by (cases t) auto
  define devc1 where "devc1 = devc\<lparr>buf := (c @ [b]) @ t0, buflen := int (length (c @ [b]))\<rparr>"
  have keep: "c @ [b] = s" if "poll_start (profile devc) = Some s" "length s = Suc (length c)" for s
  proof -
    have "take (length s) (c @ b # ys) = s"
      using Cons.prems(7) [OF that(1)] that(2) by simp
    then show ?thesis
      using that(2) by simp
  qed
  have step: "recv_poll_step devc b = (devc1, [])"
    unfolding devc1_def
    using Cons.prems(2,3) keep t
    by (intro recv_poll_step_keep [OF Cons.prems(1)]) auto
  have less: "buflen devc < poll_len (profile devc)" "buflen devc1 < poll_len (profile devc1)"
    using Cons.prems(3,5) by (simp_all add: devc1_def)
  have call: "recv_poll_data chs devc (serial\<lparr>rx := rx serial @ [b]\<rparr>) = (devc1, serial, [])"
    using recv_poll_data_one_byte [OF less(1) Cons.prems(4) step, of chs] less(2) by simp
  have ih: "feed chs (devc1, serial, seen) ys =
              (devc1\<lparr>buf := ((c @ [b]) @ ys) @ drop (length ys) t0,
                     buflen := int (length ((c @ [b]) @ ys))\<rparr>, serial, seen)"
  proof (rule Cons.IH)
    show "profile_ok (profile devc1)"
      using Cons.prems(1) by (simp add: devc1_def)
    show "buf devc1 = (c @ [b]) @ t0" "buflen devc1 = int (length (c @ [b]))"
      by (simp_all add: devc1_def)
    show "rx serial = []" by fact
    show "int (length ((c @ [b]) @ ys)) < poll_len (profile devc1)"
      using Cons.prems(5) by (simp add: devc1_def)
    show "length ys \<le> length t0"
      using Cons.prems(6) t by simp
    show "take (length s) ((c @ [b]) @ ys) = s"
      if "poll_start (profile devc1) = Some s" "length (c @ [b]) < length s"
        "length s \<le> length ((c @ [b]) @ ys)" for s
      using Cons.prems(7) [of s] that by (simp add: devc1_def)
  qed
  show ?case
    using call ih t by (simp add: devc1_def)
qed



lemma feed_resync:
  assumes "profile_ok (profile devc)" and "poll_start (profile devc) = Some s"
    and "buf devc = c @ t" and "buflen devc = int (length c)" and "rx serial = []"
    and "length c < length s" and "length s \<le> length (c @ t)"
    and "\<And>i. i + length s \<le> length (c @ ys) \<Longrightarrow> take (length s) (drop i (c @ ys)) \<noteq> s"
  shows "\<exists>a. feed chs (devc, serial, seen) ys =
               (devc\<lparr>buf := a,
                      buflen := int (length (drop (length (c @ ys) - (length s - 1)) (c @ ys)))\<rparr>,
                serial,
                seen @ map (\<lambda>b. Log (Warn_illegal_poll_header b))
                         (take (length (c @ ys) - (length s - 1)) (c @ ys)))
             \<and> take (length (c @ ys) - (length (c @ ys) - (length s - 1))) a
                 = drop (length (c @ ys) - (length s - 1)) (c @ ys)
             \<and> length a = length (c @ t)
             \<and> drop (length s) a = drop (length s) (c @ t)"
  using assms
proof (induction ys arbitrary: devc c t seen)
  case Nil
  then show ?case
    by (intro exI [of _ "c @ t"]) (simp add: dev_context_same)
next
  case (Cons b ys)
  have sK: "int (length s) \<le> poll_len (profile devc)"
    using Cons.prems(1,2) by (simp add: profile_ok_def)
  from Cons.prems(6,7) obtain x t0 where t: "t = x # t0"
    by (cases t) auto
  have less: "buflen devc < poll_len (profile devc)"
    using Cons.prems(4,6) sK by simp
  show ?case
  proof (cases "Suc (length c) < length s")
    case True
    define devc1 where "devc1 = devc\<lparr>buf := (c @ [b]) @ t0, buflen := int (length (c @ [b]))\<rparr>"
    have step: "recv_poll_step devc b = (devc1, [])"
      unfolding devc1_def
      using Cons.prems(2,3,4) True t
      by (intro recv_poll_step_keep [OF Cons.prems(1)]) auto
    have less1: "buflen devc1 < poll_len (profile devc1)"
      using True sK by (simp add: devc1_def)
    have call: "recv_poll_data chs devc (serial\<lparr>rx := rx serial @ [b]\<rparr>) = (devc1, serial, [])"
      using recv_poll_data_one_byte [OF less Cons.prems(5) step, of chs] less1 by simp
    have "\<exists>a. feed chs (devc1, serial, seen) ys =
               (devc1\<lparr>buf := a,
                      buflen := int (length (drop (length ((c @ [b]) @ ys) - (length s - 1)) ((c @ [b]) @ ys)))\<rparr>,
                serial,
                seen @ map (\<lambda>b. Log (Warn_illegal_poll_header b))
                         (take (length ((c @ [b]) @ ys) - (length s - 1)) ((c @ [b]) @ ys)))
             \<and> take (length ((c @ [b]) @ ys) - (length ((c @ [b]) @ ys) - (length s - 1))) a
                 = drop (length ((c @ [b]) @ ys) - (length s - 1)) ((c @ [b]) @ ys)
             \<and> length a = length ((c @ [b]) @ t0)
             \<and> drop (length s) a = drop (length s) ((c @ [b]) @ t0)"
    proof (rule Cons.IH)
      show "profile_ok (profile devc1)" "poll_start (profile devc1) = Some s"
        using Cons.prems(1,2) by (simp_all add: devc1_def)
      show "buf devc1 = (c @ [b]) @ t0" "buflen devc1 = int (length (c @ [b]))"
        by (simp_all add: devc1_def)
      show "rx serial = []" by fact
      show "length (c @ [b]) < length s"
        using True by simp
      show "length s \<le> length ((c @ [b]) @ t0)"
        using Cons.prems(7) t by simp
      show "take (length s) (drop i ((c @ [b]) @ ys)) \<noteq> s"
        if "i + length s \<le> length ((c @ [b]) @ ys)" for i
        using Cons.prems(8) [of i] that by simp
    qed
    then obtain a where a: "feed chs (devc1, serial, seen) ys =
               (devc1\<lparr>buf := a,
                      buflen := int (length (drop (length ((c @ [b]) @ ys) - (length s - 1)) ((c @ [b]) @ ys)))\<rparr>,
                serial,
                seen @ map (\<lambda>b. Log (Warn_illegal_poll_header b))
                         (take (length ((c @ [b]) @ ys) - (length s - 1)) ((c @ [b]) @ ys)))"
      "take (length ((c @ [b]) @ ys) - (length ((c @ [b]) @ ys) - (length s - 1))) a
                 = drop (length ((c @ [b]) @ ys) - (length s - 1)) ((c @ [b]) @ ys)"
      "length a = length ((c @ [b]) @ t0)"
      "drop (length s) a = drop (length s) ((c @ [b]) @ t0)"
      by blast
    have tail: "drop (length s) ((c @ [b]) @ t0) = drop (length s) (c @ x # t0)"
      using True by (cases "length s - length c") auto
    show ?thesis
      using call a tail t by (intro exI [of _ a]) (simp add: devc1_def)
  next
    case False
    with Cons.prems(6) have L: "length s = Suc (length c)"
      by simp
    have ne: "c @ [b] \<noteq> s"
      using Cons.prems(8) [of 0] L by simp
    define c1 where "c1 = tl (c @ [b])"
    define devc1 where "devc1 = devc\<lparr>buf := c1 @ b # t0, buflen := int (length c1)\<rparr>"
    have lc1: "length c1 = length c"
      by (simp add: c1_def)
    have step: "recv_poll_step devc b = (devc1, [Log (Warn_illegal_poll_header (hd (c @ [b])))])"
      unfolding devc1_def c1_def
      using Cons.prems(3,4) t
      by (intro recv_poll_step_drop [OF Cons.prems(1) _ _ Cons.prems(2) L ne]) auto
    have less1: "buflen devc1 < poll_len (profile devc1)"
      using L sK by (simp add: devc1_def lc1)
    have call: "recv_poll_data chs devc (serial\<lparr>rx := rx serial @ [b]\<rparr>)
                  = (devc1, serial, [Log (Warn_illegal_poll_header (hd (c @ [b])))])"
      using recv_poll_data_one_byte [OF less Cons.prems(5) step, of chs] less1 by simp
    have X: "c1 @ ys = tl (c @ b # ys)"
      by (cases c) (simp_all add: c1_def)
    have "\<exists>a. feed chs (devc1, serial, seen @ [Log (Warn_illegal_poll_header (hd (c @ [b])))]) ys =
               (devc1\<lparr>buf := a,
                      buflen := int (length (drop (length (c1 @ ys) - (length s - 1)) (c1 @ ys)))\<rparr>,
                serial,
                (seen @ [Log (Warn_illegal_poll_header (hd (c @ [b])))])
                  @ map (\<lambda>b. Log (Warn_illegal_poll_header b))
                         (take (length (c1 @ ys) - (length s - 1)) (c1 @ ys)))
             \<and> take (length (c1 @ ys) - (length (c1 @ ys) - (length s - 1))) a
                 = drop (length (c1 @ ys) - (length s - 1)) (c1 @ ys)
             \<and> length a = length (c1 @ b # t0)
             \<and> drop (length s) a = drop (length s) (c1 @ b # t0)"
    proof (rule Cons.IH)
      show "profile_ok (profile devc1)" "poll_start (profile devc1) = Some s"
        using Cons.prems(1,2) by (simp_all add: devc1_def)
      show "buf devc1 = c1 @ b # t0" "buflen devc1 = int (length c1)"
        by (simp_all add: devc1_def)
      show "rx serial = []" by fact
      show "length c1 < length s"
        using L lc1 by simp
      show "length s \<le> length (c1 @ b # t0)"
        using L lc1 by simp
      show "take (length s) (drop i (c1 @ ys)) \<noteq> s"
        if "i + length s \<le> length (c1 @ ys)" for i
      proof -
        have "Suc i + length s \<le> length (c @ b # ys)"
          using that lc1 by simp
        from Cons.prems(8) [OF this] show ?thesis
          unfolding X drop_Suc .
      qed
    qed
    then obtain a where a: "feed chs (devc1, serial, seen @ [Log (Warn_illegal_poll_header (hd (c @ [b])))]) ys =
               (devc1\<lparr>buf := a,
                      buflen := int (length (drop (length (c1 @ ys) - (length s - 1)) (c1 @ ys)))\<rparr>,
                serial,
                (seen @ [Log (Warn_illegal_poll_header (hd (c @ [b])))])
                  @ map (\<lambda>b. Log (Warn_illegal_poll_header b))
                         (take (length (c1 @ ys) - (length s - 1)) (c1 @ ys)))"
      "take (length (c1 @ ys) - (length (c1 @ ys) - (length s - 1))) a
                 = drop (length (c1 @ ys) - (length s - 1)) (c1 @ ys)"
      "length a = length (c1 @ b # t0)"
      "drop (length s) a = drop (length s) (c1 @ b # t0)"
      by blast
    define X where "X = c @ b # ys"
    define X1 where "X1 = c1 @ ys"
    define k where "k = length X1 - (length s - 1)"
    note a' = a [folded X1_def, folded k_def]
    have lenX: "length X = Suc (length X1)"
      using lc1 by (simp add: X_def X1_def)
    have k: "length X - (length s - 1) = Suc k"
      using L lc1 by (simp add: k_def X_def X1_def)
    have XX1: "X1 = tl X"
      using X by (simp add: X_def X1_def)
    have dropX: "drop (Suc k) X = drop k X1"
      unfolding XX1 drop_Suc ..
    have Xne: "X = hd (c @ [b]) # X1"
      unfolding XX1 by (cases c) (simp_all add: X_def)
    have takeX: "take (Suc k) X = hd (c @ [b]) # take k X1"
      by (subst Xne) simp
    have lenk: "length X - Suc k = length X1 - k"
      using lenX by simp
    have tail: "drop (length s) (c1 @ b # t0) = drop (length s) (c @ t)"
      using L lc1 t by simp
    have len: "length (c1 @ b # t0) = length (c @ t)"
      using lc1 t by simp
    have run: "feed chs (devc, serial, seen) (b # ys) =
                 (devc\<lparr>buf := a, buflen := int (length (drop (length X - (length s - 1)) X))\<rparr>,
                  serial,
                  seen @ map (\<lambda>b. Log (Warn_illegal_poll_header b))
                           (take (length X - (length s - 1)) X))"
      unfolding k dropX takeX
      using call a'(1) by (simp add: devc1_def)
    have parts: "take (length X - (length X - (length s - 1))) a = drop (length X - (length s - 1)) X"
      unfolding k dropX lenk using a'(2) .
    show ?thesis
      using run parts a'(3,4) tail len
      unfolding X_def by (intro exI [of _ a]) (simp only: simp_thms)
  qed
qed



lemma recv_poll_end_cases:
  assumes "profile_ok (profile devc)"
    and "buf devc = f @ r" and "buflen devc = int (length f)"
    and "int (length f) = poll_len (profile devc)"
  shows "recv_poll_end chs devc =
           (if ends_with_marker (profile devc) f
            then (case handle_poll_data chs devc of (d, sent) \<Rightarrow> (d\<lparr>buflen := 0\<rparr>, sent))
            else (devc\<lparr>buflen := 0\<rparr>, [Log Warn_illegal_end_marker]))"
proof (cases "poll_end (profile devc)")
  case None
  then show ?thesis
    using assms(3,4) by (simp add: recv_poll_end_def ends_with_marker_def)
next
  case (Some e)
  with assms(1) have len: "poll_end_len (profile devc) = int (length e)"
    by (simp add: profile_ok_def)
  from assms(1,4) len have le: "length e \<le> length f"
    by (simp add: profile_ok_def)
  have idx: "nat (int (length f) - int (length e)) = length f - length e"
    using le by simp
  have "memcmp (drop (length f - length e) f @ r) e (length e) = 0
          \<longleftrightarrow> drop (length f - length e) f = e"
    using le by (subst memcmp_eq_0_iff) auto
  moreover have pl: "poll_len (profile devc) = int (length f)"
    using assms(4) by simp
  ultimately show ?thesis
    using assms(2,3) Some le
    by (simp add: recv_poll_end_def ends_with_marker_def Let_def len idx pl del: of_nat_diff)
qed

lemma feed_complete:
  assumes "profile_ok (profile devc)"
    and "buf devc = c @ x # t0" and "buflen devc = int (length c)" and "rx serial = []"
    and "int (length c) + 1 = poll_len (profile devc)"
    and "\<And>s. poll_start (profile devc) = Some s \<Longrightarrow> length s = Suc (length c) \<Longrightarrow> c @ [b] = s"
  shows "feed chs (devc, serial, seen) [b] =
           (case recv_poll_end chs
                   (devc\<lparr>buf := (c @ [b]) @ t0, buflen := int (length (c @ [b]))\<rparr>) of
              (d, sent) \<Rightarrow> (d, serial, seen @ sent))"
proof -
  define devc1 where "devc1 = devc\<lparr>buf := (c @ [b]) @ t0, buflen := int (length (c @ [b]))\<rparr>"
  have step: "recv_poll_step devc b = (devc1, [])"
    unfolding devc1_def
    using assms(2,3,6) by (intro recv_poll_step_keep [OF assms(1)]) auto
  have less: "buflen devc < poll_len (profile devc)"
    using assms(3,5) by simp
  have full: "\<not> buflen devc1 < poll_len (profile devc1)"
    using assms(5) by (simp add: devc1_def)
  show ?thesis
    using recv_poll_data_one_byte [OF less assms(4) step, of chs] full
    by (simp add: devc1_def split: prod.splits)
qed

lemma feed_frame:
  assumes "profile_ok (profile devc)"
    and "buf devc = c @ t" and "buflen devc = int (length c)" and "rx serial = []"
    and "int (length (c @ ys)) = poll_len (profile devc)"
    and "ys \<noteq> []" and "length ys \<le> length t"
    and "\<And>s. poll_start (profile devc) = Some s \<Longrightarrow> length c < length s
           \<Longrightarrow> length s \<le> length (c @ ys) \<Longrightarrow> take (length s) (c @ ys) = s"
  shows "feed chs (devc, serial, seen) ys =
           (case recv_poll_end chs
                   (devc\<lparr>buf := (c @ ys) @ drop (length ys) t, buflen := int (length (c @ ys))\<rparr>) of
              (d, sent) \<Rightarrow> (d, serial, seen @ sent))"
proof -
  define ys0 where "ys0 = butlast ys"
  define b where "b = last ys"
  have ys: "ys = ys0 @ [b]"
    using assms(6) by (simp add: ys0_def b_def)
  define devc1 where
    "devc1 = devc\<lparr>buf := (c @ ys0) @ drop (length ys0) t, buflen := int (length (c @ ys0))\<rparr>"
  have fill: "feed chs (devc, serial, seen) ys0 = (devc1, serial, seen)"
    unfolding devc1_def
  proof (rule feed_fill [OF assms(1,2,3,4)])
    show "int (length (c @ ys0)) < poll_len (profile devc)"
      using assms(5) ys by simp
    show "length ys0 \<le> length t"
      using assms(7) ys by simp
    show "take (length s) (c @ ys0) = s"
      if "poll_start (profile devc) = Some s" "length c < length s"
        "length s \<le> length (c @ ys0)" for s
    proof -
      have "take (length s) (c @ ys) = s"
        using assms(8) [OF that(1,2)] that(3) ys by simp
      moreover have "take (length s) ((c @ ys0) @ [b]) = take (length s) (c @ ys0)"
        using that(3) by simp
      ultimately show ?thesis
        by (simp add: ys)
    qed
  qed
  from assms(7) ys obtain x t0 where t: "drop (length ys0) t = x # t0"
    by (cases "drop (length ys0) t") auto
  then have t0: "t0 = drop (length ys) t"
    by (metis drop_Suc drop_drop length_append_singleton list.sel(3) plus_1_eq_Suc tl_drop ys)
  have last: "feed chs (devc1, serial, seen) [b] =
           (case recv_poll_end chs
                   (devc1\<lparr>buf := ((c @ ys0) @ [b]) @ t0, buflen := int (length ((c @ ys0) @ [b]))\<rparr>) of
              (d, sent) \<Rightarrow> (d, serial, seen @ sent))"
  proof (rule feed_complete)
    show "profile_ok (profile devc1)"
      using assms(1) by (simp add: devc1_def)
    show "buf devc1 = (c @ ys0) @ x # t0" "buflen devc1 = int (length (c @ ys0))"
      using t by (simp_all add: devc1_def)
    show "rx serial = []" by fact
    show "int (length (c @ ys0)) + 1 = poll_len (profile devc1)"
      using assms(5) ys by (simp add: devc1_def)
    show "(c @ ys0) @ [b] = s"
      if "poll_start (profile devc1) = Some s" "length s = Suc (length (c @ ys0))" for s
    proof (cases "length c < length s")
      case True
      have "take (length s) (c @ ys) = s"
        using assms(8) [of s] that True ys by (simp add: devc1_def)
      then show ?thesis
        using that(2) ys by simp
    next
      case False
      with that(2) show ?thesis by simp
    qed
  qed
  have "feed chs (devc, serial, seen) ys = feed chs (devc1, serial, seen) [b]"
    unfolding ys feed_append fill ..
  then show ?thesis
    using last t0 ys by (simp add: devc1_def)
qed


subsection \<open>Resynchronisation and whole frames\<close>


lemma marker_first_afterD:
  assumes "marker_first_after g s" and "i < length g"
  shows "take (length s) (drop i (g @ s)) \<noteq> s"
  using assms by (simp add: marker_first_after_def list_all_iff)

lemma start_marker_fits:
  assumes "profile_ok (profile devc)" and "poll_start (profile devc) = Some s"
    and "buffer_ok devc"
  shows "length s \<le> length (buf devc)" and "int (length s) \<le> poll_len (profile devc)"
  using assms by (simp_all add: profile_ok_def buffer_ok_def)

text \<open>
  From the empty buffer, the bytes before the first occurrence of the start marker
  are dropped one by one; when all but the last byte of the marker have arrived, the
  buffer holds just these.
\<close>

lemma feed_garbage:
  assumes ok: "profile_ok (profile devc)" and bok: "buffer_ok devc"
    and empty: "buflen devc = 0" and rx: "rx serial = []"
    and s: "poll_start (profile devc) = Some s" "s \<noteq> []"
    and first: "marker_first_after g s"
  shows "\<exists>a. feed chs (devc, serial, seen) (g @ butlast s) =
               (devc\<lparr>buf := a, buflen := int (length (butlast s))\<rparr>, serial,
                seen @ map (\<lambda>b. Log (Warn_illegal_poll_header b)) g)
             \<and> take (length (butlast s)) a = butlast s
             \<and> length a = length (buf devc)
             \<and> drop (length s) a = drop (length s) (buf devc)"
proof -
  define s0 where "s0 = butlast s"
  have ls0: "length s0 = length s - 1"
    by (simp add: s0_def)
  have lgs: "length (g @ s0) - (length s - 1) = length g"
    by (simp add: ls0)
  have "\<exists>a. feed chs (devc, serial, seen) (g @ s0) =
               (devc\<lparr>buf := a,
                      buflen := int (length (drop (length ([] @ g @ s0) - (length s - 1)) ([] @ g @ s0)))\<rparr>,
                serial,
                seen @ map (\<lambda>b. Log (Warn_illegal_poll_header b))
                         (take (length ([] @ g @ s0) - (length s - 1)) ([] @ g @ s0)))
             \<and> take (length ([] @ g @ s0) - (length ([] @ g @ s0) - (length s - 1))) a
                 = drop (length ([] @ g @ s0) - (length s - 1)) ([] @ g @ s0)
             \<and> length a = length ([] @ buf devc)
             \<and> drop (length s) a = drop (length s) ([] @ buf devc)"
  proof (rule feed_resync [OF ok s(1) _ _ rx])
    show "buf devc = [] @ buf devc" by simp
    show "buflen devc = int (length ([]::byte list))"
      using empty by simp
    show "length ([]::byte list) < length s"
      using s(2) by simp
    show "length s \<le> length ([] @ buf devc)"
      using start_marker_fits(1) [OF ok s(1) bok] by simp
    show "take (length s) (drop i ([] @ g @ s0)) \<noteq> s"
      if "i + length s \<le> length ([] @ g @ s0)" for i
    proof -
      from that have i: "i < length g"
        using s(2) by (cases s) (simp_all add: ls0)
      define G where "G = g @ s0"
      have "i + length s \<le> length G"
        using that by (simp add: G_def)
      then have "take (length s) (drop i (G @ [last s])) = take (length s) (drop i G)"
        by simp
      moreover have "G @ [last s] = g @ s"
        using s(2) by (simp add: G_def s0_def)
      ultimately have "take (length s) (drop i G) \<noteq> s"
        using marker_first_afterD [OF first i] by simp
      then show ?thesis
        unfolding G_def append_Nil .
    qed
  qed
  then show ?thesis
    using lgs by (auto simp: ls0 s0_def [symmetric])
qed

text \<open>
  From the empty buffer, a full frame's worth of bytes that begin with the start
  marker, after bytes that precede the marker's first occurrence, reaches the check
  of the end marker with exactly these bytes in the buffer.
\<close>

lemma feed_garbage_frame:
  assumes ok: "profile_ok (profile devc)" and bok: "buffer_ok devc"
    and empty: "buflen devc = 0" and rx: "rx serial = []"
    and g: "garbage_before (profile devc) g"
    and len: "int (length f) = poll_len (profile devc)"
    and start: "starts_with_marker (profile devc) f"
  shows "feed chs (devc, serial, seen) (g @ f) =
           (case recv_poll_end chs
                   (devc\<lparr>buf := f @ drop (length f) (buf devc), buflen := int (length f)\<rparr>) of
              (d, sent) \<Rightarrow>
                (d, serial, seen @ map (\<lambda>b. Log (Warn_illegal_poll_header b)) g @ sent))"
proof (cases "g = []")
  case True
  have fne: "f \<noteq> []"
    using ok len by (auto simp: profile_ok_def)
  have fit: "length f \<le> length (buf devc)"
    using ok bok len by (simp add: profile_ok_def buffer_ok_def)
  have "feed chs (devc, serial, seen) f =
           (case recv_poll_end chs
                   (devc\<lparr>buf := ([] @ f) @ drop (length f) (buf devc),
                          buflen := int (length ([] @ f))\<rparr>) of
              (d, sent) \<Rightarrow> (d, serial, seen @ sent))"
  proof (rule feed_frame [OF ok _ _ rx])
    show "buf devc = [] @ buf devc" by simp
    show "buflen devc = int (length ([]::byte list))"
      using empty by simp
    show "int (length ([] @ f)) = poll_len (profile devc)"
      using len by simp
    show "f \<noteq> []" by fact
    show "length f \<le> length (buf devc)" by fact
    show "take (length s) ([] @ f) = s" if "poll_start (profile devc) = Some s" for s
      using start that by (simp add: starts_with_marker_def)
  qed
  with True show ?thesis by simp
next
  case False
  with g obtain s where s: "poll_start (profile devc) = Some s" "s \<noteq> []"
    and first: "marker_first_after g s"
    by (auto simp: garbage_before_def split: option.splits)
  have fs: "take (length s) f = s"
    using start s(1) by (simp add: starts_with_marker_def)
  have sf: "length s \<le> length f"
    using start_marker_fits(2) [OF ok s(1) bok] len by linarith
  have bl: "length (buf devc) = 256"
    using bok by (simp add: buffer_ok_def RDTECH_UM_BUFSIZE_def)
  have fl: "length f \<le> 256"
    using ok len by (simp add: profile_ok_def RDTECH_UM_BUFSIZE_def)
  define s0 where "s0 = butlast s"
  define r where "r = drop (length s) f"
  have s_eq: "s = s0 @ [last s]"
    using s(2) by (simp add: s0_def)
  have ls0: "length s0 = length s - 1"
    by (simp add: s0_def)
  have f_eq: "f = s0 @ last s # r"
  proof -
    have "f = take (length s) f @ drop (length s) f" by simp
    also have "\<dots> = s @ r" by (simp only: fs r_def)
    also have "\<dots> = s0 @ last s # r" by (subst s_eq) simp
    finally show ?thesis .
  qed
  have stream: "g @ f = (g @ s0) @ (last s # r)"
    by (subst f_eq) simp
  from feed_garbage [OF ok bok empty rx s first, of chs seen]
  obtain a where a: "feed chs (devc, serial, seen) (g @ s0) =
               (devc\<lparr>buf := a, buflen := int (length s0)\<rparr>, serial,
                seen @ map (\<lambda>b. Log (Warn_illegal_poll_header b)) g)"
    "take (length s0) a = s0" "length a = 256" "drop (length s) a = drop (length s) (buf devc)"
    using bl by (auto simp: s0_def)
  define devc1 where "devc1 = devc\<lparr>buf := a, buflen := int (length s0)\<rparr>"
  define t where "t = drop (length s0) a"
  have a_eq: "a = s0 @ t"
    using a(2) by (metis append_take_drop_id t_def)
  have lt: "length t = 256 - length s0"
    using a(3) by (simp add: t_def)
  have lr: "length r = length f - length s"
    by (simp add: r_def)
  have run: "feed chs (devc1, serial, seen @ map (\<lambda>b. Log (Warn_illegal_poll_header b)) g) (last s # r) =
           (case recv_poll_end chs
                   (devc1\<lparr>buf := (s0 @ last s # r) @ drop (length (last s # r)) t,
                          buflen := int (length (s0 @ last s # r))\<rparr>) of
              (d, sent) \<Rightarrow>
                (d, serial, (seen @ map (\<lambda>b. Log (Warn_illegal_poll_header b)) g) @ sent))"
  proof (rule feed_frame [OF _ _ _ rx])
    show "profile_ok (profile devc1)"
      using ok by (simp add: devc1_def)
    show "buf devc1 = s0 @ t" "buflen devc1 = int (length s0)"
      using a_eq by (simp_all add: devc1_def)
    show "int (length (s0 @ last s # r)) = poll_len (profile devc1)"
      using len f_eq by (simp add: devc1_def)
    show "last s # r \<noteq> []" by simp
    show "length (last s # r) \<le> length t"
      using lt lr ls0 sf fl s(2) by (cases s) auto
    show "take (length s') (s0 @ last s # r) = s'"
      if "poll_start (profile devc1) = Some s'" for s'
      using that s(1) fs f_eq by (simp add: devc1_def)
  qed
  have tail: "drop (length (last s # r)) t = drop (length f) (buf devc)"
  proof -
    have "length s0 + length (last s # r) = length f"
      using arg_cong [OF f_eq, of length] by simp
    then have "drop (length (last s # r)) t = drop (length f) a"
      by (simp add: t_def add.commute)
    also have "\<dots> = drop (length f - length s) (drop (length s) a)"
      using sf by simp
    also have "\<dots> = drop (length f) (buf devc)"
      using sf by (simp add: a(4))
    finally show ?thesis .
  qed
  have "feed chs (devc, serial, seen) (g @ f) =
          feed chs (devc1, serial, seen @ map (\<lambda>b. Log (Warn_illegal_poll_header b)) g) (last s # r)"
    unfolding stream
    using feed_append [of chs "(devc, serial, seen)" "g @ s0" "last s # r"] a(1)
    by (simp only: devc1_def)
  also note run [unfolded f_eq [symmetric] tail]
  finally show ?thesis
    by (simp add: devc1_def)
qed

text \<open>The same for a frame that is not complete yet.\<close>

lemma feed_garbage_partial:
  assumes ok: "profile_ok (profile devc)" and bok: "buffer_ok devc"
    and empty: "buflen devc = 0" and rx: "rx serial = []"
    and s: "poll_start (profile devc) = Some s" "s \<noteq> []"
    and first: "marker_first_after g s"
    and len: "int (length (s @ r)) < poll_len (profile devc)"
  shows "\<exists>a. feed chs (devc, serial, seen) (g @ s @ r) =
               (devc\<lparr>buf := (s @ r) @ a, buflen := int (length (s @ r))\<rparr>, serial,
                seen @ map (\<lambda>b. Log (Warn_illegal_poll_header b)) g)"
proof -
  define s0 where "s0 = butlast s"
  have s_eq: "s0 @ [last s] = s"
    using s(2) by (simp add: s0_def)
  have ls0: "length s0 = length s - 1"
    by (simp add: s0_def)
  have bl: "length (buf devc) = 256"
    using bok by (simp add: buffer_ok_def RDTECH_UM_BUFSIZE_def)
  have K: "poll_len (profile devc) \<le> 256"
    using ok by (simp add: profile_ok_def RDTECH_UM_BUFSIZE_def)
  have stream: "g @ s @ r = (g @ s0) @ (last s # r)"
    using s_eq by (metis append.assoc append_Cons append_Nil)
  from feed_garbage [OF ok bok empty rx s first, of chs seen]
  obtain a where a: "feed chs (devc, serial, seen) (g @ s0) =
               (devc\<lparr>buf := a, buflen := int (length s0)\<rparr>, serial,
                seen @ map (\<lambda>b. Log (Warn_illegal_poll_header b)) g)"
    "take (length s0) a = s0" "length a = 256"
    using bl by (auto simp: s0_def)
  define devc1 where "devc1 = devc\<lparr>buf := a, buflen := int (length s0)\<rparr>"
  define t where "t = drop (length s0) a"
  have a_eq: "a = s0 @ t"
    using a(2) by (metis append_take_drop_id t_def)
  have lt: "length t = 256 - length s0"
    using a(3) by (simp add: t_def)
  have sr: "s0 @ last s # r = s @ r"
    using s_eq by (metis append.assoc append_Cons append_Nil)
  have run: "feed chs (devc1, serial, seen @ map (\<lambda>b. Log (Warn_illegal_poll_header b)) g) (last s # r) =
           (devc1\<lparr>buf := (s0 @ last s # r) @ drop (length (last s # r)) t,
                  buflen := int (length (s0 @ last s # r))\<rparr>, serial,
            seen @ map (\<lambda>b. Log (Warn_illegal_poll_header b)) g)"
  proof (rule feed_fill [OF _ _ _ rx])
    show "profile_ok (profile devc1)"
      using ok by (simp add: devc1_def)
    show "buf devc1 = s0 @ t" "buflen devc1 = int (length s0)"
      using a_eq by (simp_all add: devc1_def)
    show "int (length (s0 @ last s # r)) < poll_len (profile devc1)"
      using len unfolding sr by (simp add: devc1_def)
    show "length (last s # r) \<le> length t"
      using lt ls0 len K s(2) by (cases s) auto
    show "take (length s') (s0 @ last s # r) = s'"
      if "poll_start (profile devc1) = Some s'" for s'
      using that s(1) unfolding sr by (simp add: devc1_def)
  qed
  have "feed chs (devc, serial, seen) (g @ s @ r) =
          feed chs (devc1, serial, seen @ map (\<lambda>b. Log (Warn_illegal_poll_header b)) g) (last s # r)"
    unfolding stream
    using feed_append [of chs "(devc, serial, seen)" "g @ s0" "last s # r"] a(1)
    by (simp only: devc1_def)
  also note run [unfolded sr]
  finally show ?thesis
    by (intro exI [of _ "drop (length (last s # r)) t"]) (simp add: devc1_def)
qed


subsection \<open>Dispatch of frames\<close>


lemma get_sample_events:
  "snd (get_sample devc m) = []
     \<or> snd (get_sample devc m) = [Log (Err_illegal_data_type (ch_name m) (ch_type m))]"
  by (simp add: get_sample_def Let_def)

lemma send_channel_quiet:
  "filter is_decode (send_channel devc m ch) = []
     \<and> skipped (send_channel devc m ch) = []
     \<and> Acquisition_stop \<notin> set (send_channel devc m ch)"
  using get_sample_events [of devc m]
  by (cases "get_sample devc m") (auto simp: send_channel_def)

lemma skipped_append: "skipped (xs @ ys) = skipped xs @ skipped ys"
  by (induction xs rule: skipped.induct) simp_all

lemma skipped_warnings: "skipped (map (\<lambda>b. Log (Warn_illegal_poll_header b)) g) = g"
  by (induction g) simp_all

lemma decode_warnings: "filter is_decode (map (\<lambda>b. Log (Warn_illegal_poll_header b)) g) = []"
  by (induction g) simp_all

lemma send_channels_quiet:
  "filter is_decode (send_channels devc i chs) = []
     \<and> skipped (send_channels devc i chs) = []
     \<and> Acquisition_stop \<notin> set (send_channels devc i chs)"
  by (induction chs arbitrary: i) (simp_all add: send_channel_quiet skipped_append)

lemma handle_poll_data_full:
  assumes "buflen devc = poll_len (profile devc)"
  shows "handle_poll_data chs devc =
           (devc\<lparr>limits := (limits devc)\<lparr>samples_read := samples_read (limits devc) + 1\<rparr>\<rparr>,
            Log (Spew_received_poll_packet (buflen devc)) # send_channels devc 0 chs)"
  using assms by (simp add: handle_poll_data_def sr_sw_limits_update_samples_read_def)

lemma handle_poll_data_events:
  "frames_decoded (snd (handle_poll_data chs devc)) = 1
     \<and> skipped (snd (handle_poll_data chs devc)) = []
     \<and> Acquisition_stop \<notin> set (snd (handle_poll_data chs devc))"
  by (simp add: handle_poll_data_def frames_decoded_def send_channels_quiet)

lemma frames_decoded_append: "frames_decoded (xs @ ys) = frames_decoded xs + frames_decoded ys"
  by (simp add: frames_decoded_def)

lemma recv_poll_step_events:
  "snd (recv_poll_step devc b) = []
     \<or> (\<exists>x. snd (recv_poll_step devc b) = [Log (Warn_illegal_poll_header x)])"
  by (simp add: recv_poll_step_def Let_def)

lemma feed_short:
  assumes "0 \<le> buflen devc" and "buflen devc + int (length r) < poll_len (profile devc)"
    and "rx serial = []"
  shows "frames_decoded (snd (snd (feed chs (devc, serial, seen) r))) = frames_decoded seen"
  using assms
proof (induction r arbitrary: devc seen)
  case Nil
  show ?case by simp
next
  case (Cons b r)
  obtain devc1 logged where step: "recv_poll_step devc b = (devc1, logged)"
    by (cases "recv_poll_step devc b")
  have p1: "profile devc1 = profile devc"
    using recv_poll_step_profile [of devc b] step by simp
  have b1: "0 \<le> buflen devc1" "buflen devc1 + int (length r) < poll_len (profile devc1)"
    using recv_poll_step_buflen [of devc b] step Cons.prems(1,2) p1 by auto
  have quiet: "frames_decoded logged = 0"
    using recv_poll_step_events [of devc b] step by (auto simp: frames_decoded_def)
  have less: "buflen devc < poll_len (profile devc)" "buflen devc1 < poll_len (profile devc1)"
    using Cons.prems(2) b1(2) by simp_all
  have call: "recv_poll_data chs devc (serial\<lparr>rx := rx serial @ [b]\<rparr>) = (devc1, serial, logged)"
    using recv_poll_data_one_byte [OF less(1) Cons.prems(3) step, of chs] less(2) by simp
  show ?case
    using call Cons.IH [OF b1 Cons.prems(3), of "seen @ logged"] quiet
    by (simp add: frames_decoded_append)
qed

lemma feed_well_formed:
  assumes "profile_ok (profile devc)" and "buffer_ok devc"
    and "buflen devc = 0" and "rx serial = []"
    and "garbage_before (profile devc) g" and "well_formed_frame (profile devc) f"
  shows "feed chs (devc, serial, seen) (g @ f) =
           (case handle_poll_data chs
                   (devc\<lparr>buf := f @ drop (length f) (buf devc), buflen := int (length f)\<rparr>) of
              (d, sent) \<Rightarrow>
                (d\<lparr>buflen := 0\<rparr>, serial,
                 seen @ map (\<lambda>b. Log (Warn_illegal_poll_header b)) g @ sent))"
proof -
  define full where "full = devc\<lparr>buf := f @ drop (length f) (buf devc), buflen := int (length f)\<rparr>"
  from assms(6) have len: "int (length f) = poll_len (profile devc)"
    and start: "starts_with_marker (profile devc) f" and "end": "ends_with_marker (profile devc) f"
    by (simp_all add: well_formed_frame_def)
  have "recv_poll_end chs full =
          (case handle_poll_data chs full of (d, sent) \<Rightarrow> (d\<lparr>buflen := 0\<rparr>, sent))"
    using recv_poll_end_cases [of full f "drop (length f) (buf devc)" chs] assms(1) len "end"
    by (simp add: full_def)
  with feed_garbage_frame [OF assms(1-5) len start, of chs seen]
  show ?thesis
    by (simp add: full_def split: prod.splits)
qed

lemma feed_corrupted:
  assumes "profile_ok (profile devc)" and "buffer_ok devc"
    and "buflen devc = 0" and "rx serial = []"
    and "garbage_before (profile devc) g" and "corrupted_frame (profile devc) c"
  shows "feed chs (devc, serial, seen) (g @ c) =
           (devc\<lparr>buf := c @ drop (length c) (buf devc), buflen := 0\<rparr>, serial,
            seen @ map (\<lambda>b. Log (Warn_illegal_poll_header b)) g @ [Log Warn_illegal_end_marker])"
proof -
  define full where "full = devc\<lparr>buf := c @ drop (length c) (buf devc), buflen := int (length c)\<rparr>"
  from assms(6) have len: "int (length c) = poll_len (profile devc)"
    and start: "starts_with_marker (profile devc) c" and "end": "\<not> ends_with_marker (profile devc) c"
    by (simp_all add: corrupted_frame_def)
  have "recv_poll_end chs full = (full\<lparr>buflen := 0\<rparr>, [Log Warn_illegal_end_marker])"
    using recv_poll_end_cases [of full c "drop (length c) (buf devc)" chs] assms(1) len "end"
    by (simp add: full_def)
  with feed_garbage_frame [OF assms(1-5) len start, of chs seen]
  show ?thesis
    by (simp add: full_def)
qed

text \<open>
  C1, as amended. For a profile with an end marker: a well-formed frame, fed one byte
  at a time to the assembler with an empty buffer after bytes \<open>g\<close> at none of whose
  positions an occurrence of the start marker begins, whether it lies within \<open>g\<close> or
  is completed by the first bytes of the frame (\<open>g\<close> is empty when the profile has no
  start marker), is handed to \<open>handle_poll_data\<close> once, with exactly the frame's
  bytes in the buffer, after one warning for each byte of \<open>g\<close>; then the fill length
  is zero, and fewer bytes than a frame after it decode nothing more.
\<close>

theorem well_formed_frame_dispatched_once:
  assumes "profile_ok (profile devc)" and "buffer_ok devc"
    and "buflen devc = 0" and "rx serial = []"
    and "garbage_before (profile devc) g" and "well_formed_frame (profile devc) f"
    and "int (length r) < poll_len (profile devc)"
  shows "feed chs (devc, serial, seen) (g @ f) =
           (case handle_poll_data chs
                   (devc\<lparr>buf := f @ drop (length f) (buf devc), buflen := int (length f)\<rparr>) of
              (d, sent) \<Rightarrow>
                (d\<lparr>buflen := 0\<rparr>, serial,
                 seen @ map (\<lambda>b. Log (Warn_illegal_poll_header b)) g @ sent))
         \<and> received (devc\<lparr>buf := f @ drop (length f) (buf devc), buflen := int (length f)\<rparr>) = f
         \<and> buflen (fst (feed chs (devc, serial, seen) (g @ f))) = 0
         \<and> frames_decoded (snd (snd (feed chs (devc, serial, seen) (g @ f)))) = frames_decoded seen + 1
         \<and> frames_decoded (snd (snd (feed chs (devc, serial, seen) ((g @ f) @ r)))) = frames_decoded seen + 1"
proof -
  define full where "full = devc\<lparr>buf := f @ drop (length f) (buf devc), buflen := int (length f)\<rparr>"
  obtain d sent where h: "handle_poll_data chs full = (d, sent)"
    by (cases "handle_poll_data chs full")
  with feed_well_formed [OF assms(1-6), of chs seen]
  have run: "feed chs (devc, serial, seen) (g @ f) =
               (d\<lparr>buflen := 0\<rparr>, serial, seen @ map (\<lambda>b. Log (Warn_illegal_poll_header b)) g @ sent)"
    by (simp add: full_def)
  have sent: "frames_decoded sent = 1"
    using handle_poll_data_events [of chs full] h by simp
  have pd: "profile d = profile devc"
    using handle_poll_data_profile [of chs full] h by (simp add: full_def)
  have count: "frames_decoded (seen @ map (\<lambda>b. Log (Warn_illegal_poll_header b)) g @ sent)
                 = frames_decoded seen + 1"
    using sent by (simp add: frames_decoded_append) (simp add: frames_decoded_def decode_warnings)
  have after: "frames_decoded (snd (snd (feed chs (d\<lparr>buflen := 0\<rparr>, serial,
                  seen @ map (\<lambda>b. Log (Warn_illegal_poll_header b)) g @ sent) r)))
                 = frames_decoded (seen @ map (\<lambda>b. Log (Warn_illegal_poll_header b)) g @ sent)"
    using assms(4,7) pd by (intro feed_short) simp_all
  have split: "feed chs (devc, serial, seen) ((g @ f) @ r)
                 = feed chs (feed chs (devc, serial, seen) (g @ f)) r"
    by (rule feed_append)
  have "received full = f"
    by (simp add: received_def full_def)
  then show ?thesis
    unfolding split run full_def [symmetric] h
    using count after by simp
qed


subsection \<open>The UM24C instance\<close>


lemma um24c_profile_ok: "profile_ok rdtech_um24c_profile"
  by (simp add: profile_ok_def rdtech_um24c_profile_def RDTECH_UM24C_POLL_LEN_def
      RDTECH_UM_BUFSIZE_def)

lemma um24c_devc_ok:
  "profile (um24c_devc cap) = rdtech_um24c_profile" "buffer_ok (um24c_devc cap)"
  "buflen (um24c_devc cap) = 0" "rx idle_port = []"
  by (simp_all add: um24c_devc_def buffer_ok_def RDTECH_UM_BUFSIZE_def idle_port_def)

lemma um24c_poll_len: "poll_len rdtech_um24c_profile = 130"
  by (simp add: rdtech_um24c_profile_def RDTECH_UM24C_POLL_LEN_def)

lemma example_frame_ok: "well_formed_frame rdtech_um24c_profile example_frame"
  by (simp add: well_formed_frame_def starts_with_marker_def ends_with_marker_def
      rdtech_um24c_profile_def RDTECH_UM24C_POLL_LEN_def example_frame_def)

lemma damaged_frame_corrupted: "corrupted_frame rdtech_um24c_profile damaged_frame"
  by (simp add: corrupted_frame_def starts_with_marker_def ends_with_marker_def
      rdtech_um24c_profile_def RDTECH_UM24C_POLL_LEN_def damaged_frame_def)

lemma garbage_example: "garbage_before rdtech_um24c_profile [0x00, 0x09, 0x09]"
  by (simp add: garbage_before_def marker_first_after_def rdtech_um24c_profile_def upt_rec)

lemma frames_decoded_Nil: "frames_decoded [] = 0"
  by (simp add: frames_decoded_def)

theorem well_formed_frame_dispatched_once_witness:
  "profile_ok (profile (um24c_devc 0)) \<and> buffer_ok (um24c_devc 0)
     \<and> buflen (um24c_devc 0) = 0 \<and> rx idle_port = []
     \<and> garbage_before (profile (um24c_devc 0)) [0x00, 0x09, 0x09]
     \<and> well_formed_frame (profile (um24c_devc 0)) example_frame
     \<and> int (length [0x09 :: byte, 0x63]) < poll_len (profile (um24c_devc 0))
     \<and> buflen (fst (feed um24c_channel_list (um24c_devc 0, idle_port, [])
                       ([0x00, 0x09, 0x09] @ example_frame))) = 0
     \<and> frames_decoded (snd (snd (feed um24c_channel_list (um24c_devc 0, idle_port, [])
                       ([0x00, 0x09, 0x09] @ example_frame)))) = 1
     \<and> frames_decoded (snd (snd (feed um24c_channel_list (um24c_devc 0, idle_port, [])
                       (([0x00, 0x09, 0x09] @ example_frame) @ [0x09, 0x63])))) = 1"
proof -
  have hyps: "profile_ok (profile (um24c_devc 0))" "buffer_ok (um24c_devc 0)"
    "buflen (um24c_devc 0) = 0" "rx idle_port = []"
    "garbage_before (profile (um24c_devc 0)) [0x00, 0x09, 0x09]"
    "well_formed_frame (profile (um24c_devc 0)) example_frame"
    "int (length [0x09 :: byte, 0x63]) < poll_len (profile (um24c_devc 0))"
    by (simp_all add: um24c_devc_ok um24c_profile_ok example_frame_ok garbage_example
        um24c_poll_len)
  note well_formed_frame_dispatched_once [OF hyps, of um24c_channel_list "[]"]
  note this [THEN conjunct2, THEN conjunct2]
  then show ?thesis
    using hyps by (simp only: frames_decoded_Nil simp_thms add_0)
qed

text \<open>
  C1 as stated fails: the stream \<open>09 63\<close> followed by a well-formed frame contains
  the frame, yet nothing is decoded. The assembler takes the first two bytes for the
  start of a frame, finds no end marker after 130 bytes and discards them all; the
  last two bytes of the frame then start a new search.
\<close>

theorem frame_after_marker_bytes_not_dispatched:
  "well_formed_frame rdtech_um24c_profile example_frame
     \<and> frames_decoded (snd (snd (feed um24c_channel_list (um24c_devc 0, idle_port, [])
                       ([0x09, 0x63] @ example_frame)))) = 0"
proof -
  define x :: "byte list" where
    "x = [0x09, 0x63, 0x09, 0x63, 0x00, 0x96, 0x00, 0x64] @ replicate 4 0 @ [0x00, 0x19]
           @ replicate 94 0 @ [0x00, 0x00, 0x03, 0xE8] @ replicate 18 0"
  have stream: "[0x09, 0x63] @ example_frame = ([] @ x) @ [0xff, 0xf1]"
    by (simp add: x_def example_frame_def)
  have r2: "replicate 2 (0::byte) = [0, 0]"
    by (simp add: numeral_2_eq_2)
  have x: "corrupted_frame (profile (um24c_devc 0)) x"
    by (simp add: r2 corrupted_frame_def starts_with_marker_def ends_with_marker_def um24c_devc_ok
        rdtech_um24c_profile_def RDTECH_UM24C_POLL_LEN_def x_def)
  have g: "garbage_before (profile (um24c_devc 0)) []"
    by (simp add: garbage_before_def)
  have ok: "profile_ok (profile (um24c_devc 0))"
    by (simp add: um24c_devc_ok um24c_profile_ok)
  note run = feed_corrupted [OF ok um24c_devc_ok(2,3,4) g x, of um24c_channel_list "[]"]
  have "frames_decoded (snd (snd (feed um24c_channel_list
            ((um24c_devc 0)\<lparr>buf := x @ drop (length x) (buf (um24c_devc 0)), buflen := 0\<rparr>,
             idle_port, [Log Warn_illegal_end_marker]) [0xff, 0xf1])))
          = frames_decoded [Log Warn_illegal_end_marker]"
    by (intro feed_short) (simp_all add: um24c_devc_ok um24c_poll_len)
  then show ?thesis
    unfolding stream feed_append [of _ _ "[] @ x"] run
    by (simp add: example_frame_ok frames_decoded_def del: feed.simps)
qed

lemma overlap_devc_ok:
  "profile overlap_devc = overlap_profile" "buffer_ok overlap_devc"
  "buflen overlap_devc = 0" "profile_ok overlap_profile" "poll_len overlap_profile = 130"
  by (simp_all add: overlap_devc_def overlap_profile_def um24c_devc_def buffer_ok_def
      RDTECH_UM_BUFSIZE_def profile_ok_def rdtech_um24c_profile_def RDTECH_UM24C_POLL_LEN_def)

text \<open>
  The bytes before the frame must not complete a start marker together with the
  frame's first bytes either. With the marker \<open>AA AA\<close>, the byte \<open>AA\<close> before a
  well-formed frame is taken for the start of a frame: after 130 bytes the end marker
  is not found, all are discarded, and the frame is lost.
\<close>

lemma frame_after_overlapping_byte_not_dispatched:
  "well_formed_frame overlap_profile overlap_frame
     \<and> frames_decoded (snd (snd (feed um24c_channel_list (overlap_devc, idle_port, [])
                       ([0xAA] @ overlap_frame)))) = 0"
proof -
  define x :: "byte list" where
    "x = [0xAA, 0xAA, 0xAA] @ replicate 126 0 @ [0xff]"
  have stream: "[0xAA] @ overlap_frame = ([] @ x) @ [0xf1]"
    by (simp add: x_def overlap_frame_def)
  have wf: "well_formed_frame overlap_profile overlap_frame"
    by (simp add: well_formed_frame_def starts_with_marker_def ends_with_marker_def
        overlap_profile_def rdtech_um24c_profile_def RDTECH_UM24C_POLL_LEN_def overlap_frame_def)
  have x: "corrupted_frame (profile overlap_devc) x"
    by (simp add: corrupted_frame_def starts_with_marker_def ends_with_marker_def
        overlap_devc_ok(1) overlap_profile_def rdtech_um24c_profile_def
        RDTECH_UM24C_POLL_LEN_def x_def)
  have g: "garbage_before (profile overlap_devc) []"
    by (simp add: garbage_before_def)
  have ok: "profile_ok (profile overlap_devc)"
    by (simp add: overlap_devc_ok)
  note run = feed_corrupted [OF ok overlap_devc_ok(2,3) um24c_devc_ok(4) g x,
      of um24c_channel_list "[]"]
  have "frames_decoded (snd (snd (feed um24c_channel_list
            (overlap_devc\<lparr>buf := x @ drop (length x) (buf overlap_devc), buflen := 0\<rparr>,
             idle_port, [Log Warn_illegal_end_marker]) [0xf1])))
          = frames_decoded [Log Warn_illegal_end_marker]"
    by (intro feed_short) (simp_all add: overlap_devc_ok um24c_devc_ok(4))
  then have fd: "frames_decoded (snd (snd (feed um24c_channel_list (overlap_devc, idle_port, [])
                       ([0xAA] @ overlap_frame)))) = 0"
    unfolding stream feed_append [of _ _ "[] @ x"] run
    by (simp add: frames_decoded_def del: feed.simps)
  show ?thesis
    using wf fd by (simp only: simp_thms)
qed


subsection \<open>Resynchronisation and end marker mismatch\<close>


text \<open>
  C2, as amended. From the empty buffer, \<open>N\<close> bytes \<open>g\<close> before a start marker, at
  none of whose positions an occurrence of the marker begins (within \<open>g\<close> or completed
  by the first bytes of the marker that follows), are discarded, each by one mismatch
  event that reports the oldest byte and shifts the buffer left by one: the events are
  exactly one warning per byte of \<open>g\<close>, in order. Once the marker has matched nothing
  more is dropped: while the frame is incomplete the buffer holds the marker and all
  bytes after it.
\<close>

theorem garbage_before_marker_discarded:
  assumes "profile_ok (profile devc)" and "buffer_ok devc"
    and "buflen devc = 0" and "rx serial = []"
    and "poll_start (profile devc) = Some s" and "s \<noteq> []"
    and "marker_first_after g s"
    and "int (length (s @ r)) < poll_len (profile devc)"
  shows "snd (snd (feed chs (devc, serial, seen) (g @ s @ r)))
           = seen @ map (\<lambda>b. Log (Warn_illegal_poll_header b)) g
         \<and> skipped (snd (snd (feed chs (devc, serial, seen) (g @ s @ r)))) = skipped seen @ g
         \<and> received (fst (feed chs (devc, serial, seen) (g @ s @ r))) = s @ r
         \<and> buflen (fst (feed chs (devc, serial, seen) (g @ s @ r))) = int (length (s @ r))"
proof -
  from feed_garbage_partial [OF assms, of chs seen]
  obtain a where "feed chs (devc, serial, seen) (g @ s @ r) =
               (devc\<lparr>buf := (s @ r) @ a, buflen := int (length (s @ r))\<rparr>, serial,
                seen @ map (\<lambda>b. Log (Warn_illegal_poll_header b)) g)"
    by blast
  then show ?thesis
    by (simp add: received_def skipped_append skipped_warnings)
qed

lemma marker_example: "marker_first_after [0x00, 0x09, 0x09] [0x09, 0x63]"
  by (simp add: marker_first_after_def upt_rec)

lemma um24c_start: "poll_start rdtech_um24c_profile = Some [0x09, 0x63]"
  by (simp add: rdtech_um24c_profile_def)

theorem garbage_before_marker_discarded_witness:
  "profile_ok (profile (um24c_devc 0)) \<and> buffer_ok (um24c_devc 0)
     \<and> buflen (um24c_devc 0) = 0 \<and> rx idle_port = []
     \<and> poll_start (profile (um24c_devc 0)) = Some [0x09, 0x63] \<and> [0x09 :: byte, 0x63] \<noteq> []
     \<and> marker_first_after [0x00, 0x09, 0x09] [0x09, 0x63]
     \<and> int (length ([0x09, 0x63] @ [0x00 :: byte, 0x96])) < poll_len (profile (um24c_devc 0))
     \<and> skipped (snd (snd (feed [] (um24c_devc 0, idle_port, [])
                    ([0x00, 0x09, 0x09] @ [0x09, 0x63] @ [0x00, 0x96])))) = [0x00, 0x09, 0x09]
     \<and> received (fst (feed [] (um24c_devc 0, idle_port, [])
                    ([0x00, 0x09, 0x09] @ [0x09, 0x63] @ [0x00, 0x96]))) = [0x09, 0x63, 0x00, 0x96]"
proof -
  have hyps: "profile_ok (profile (um24c_devc 0))" "buffer_ok (um24c_devc 0)"
    "buflen (um24c_devc 0) = 0" "rx idle_port = []"
    "poll_start (profile (um24c_devc 0)) = Some [0x09, 0x63]" "[0x09 :: byte, 0x63] \<noteq> []"
    "marker_first_after [0x00, 0x09, 0x09] [0x09, 0x63]"
    "int (length ([0x09, 0x63] @ [0x00 :: byte, 0x96])) < poll_len (profile (um24c_devc 0))"
    by (simp_all add: um24c_devc_ok um24c_profile_ok marker_example um24c_start um24c_poll_len)
  note garbage_before_marker_discarded [OF hyps, of "[]" "[]"]
  note this [THEN conjunct2]
  then show ?thesis
    using hyps by (simp del: feed.simps append.simps)
qed

text \<open>
  C2 as stated fails: the two bytes \<open>09 63\<close> before the start marker \<open>09 63\<close> of the
  UM24C are not discarded. They are themselves taken for the marker, so no mismatch
  event occurs and all six bytes stay in the buffer.
\<close>

theorem marker_bytes_before_marker_not_discarded:
  "poll_start (profile (um24c_devc 0)) = Some [0x09, 0x63]
     \<and> skipped (snd (snd (feed [] (um24c_devc 0, idle_port, [])
                    ([0x09, 0x63] @ [0x09, 0x63] @ [0x00, 0x96])))) = []
     \<and> received (fst (feed [] (um24c_devc 0, idle_port, [])
                    ([0x09, 0x63] @ [0x09, 0x63] @ [0x00, 0x96])))
           = [0x09, 0x63, 0x09, 0x63, 0x00, 0x96]"
proof -
  have hyps: "profile_ok (profile (um24c_devc 0))" "buffer_ok (um24c_devc 0)"
    "buflen (um24c_devc 0) = 0" "rx idle_port = []"
    "poll_start (profile (um24c_devc 0)) = Some [0x09, 0x63]" "[0x09 :: byte, 0x63] \<noteq> []"
    "marker_first_after [] [0x09 :: byte, 0x63]"
    "int (length ([0x09, 0x63] @ [0x09 :: byte, 0x63, 0x00, 0x96])) < poll_len (profile (um24c_devc 0))"
    by (simp_all add: um24c_devc_ok um24c_profile_ok um24c_start um24c_poll_len
        marker_first_after_def)
  have stream: "[0x09, 0x63] @ [0x09, 0x63] @ [0x00, 0x96]
                  = [] @ [0x09, 0x63] @ [0x09 :: byte, 0x63, 0x00, 0x96]"
    by simp
  from feed_garbage_partial [OF hyps, of "[]" "[]"]
  obtain a where "feed [] (um24c_devc 0, idle_port, [])
                    ([] @ [0x09, 0x63] @ [0x09, 0x63, 0x00, 0x96]) =
               ((um24c_devc 0)\<lparr>buf := ([0x09, 0x63] @ [0x09, 0x63, 0x00, 0x96]) @ a,
                   buflen := int (length ([0x09, 0x63] @ [0x09 :: byte, 0x63, 0x00, 0x96]))\<rparr>,
                idle_port, [] @ map (\<lambda>b. Log (Warn_illegal_poll_header b)) [])"
    by blast
  then show ?thesis
    unfolding stream using hyps(5) by (simp add: received_def del: feed.simps append.simps)
qed

text \<open>
  C5. From the empty buffer, a frame's worth of bytes with a correct start marker
  and a wrong end marker is discarded whole when the last byte arrives: the fill
  length goes to zero with no byte reported or shifted, only the end marker warning
  is logged, and nothing is decoded. A well-formed frame that follows immediately is
  assembled from the empty buffer and is the only one handed to \<open>handle_poll_data\<close>.
\<close>

theorem end_marker_mismatch_discards_buffer:
  assumes "profile_ok (profile devc)" and "buffer_ok devc"
    and "buflen devc = 0" and "rx serial = []"
    and "corrupted_frame (profile devc) c" and "well_formed_frame (profile devc) f"
  shows "feed chs (devc, serial, seen) c =
           (devc\<lparr>buf := c @ drop (length c) (buf devc), buflen := 0\<rparr>, serial,
            seen @ [Log Warn_illegal_end_marker])
         \<and> feed chs (devc, serial, seen) (c @ f) =
             (case handle_poll_data chs
                     (devc\<lparr>buf := f @ drop (length f) (buf devc), buflen := int (length f)\<rparr>) of
                (d, sent) \<Rightarrow>
                  (d\<lparr>buflen := 0\<rparr>, serial, seen @ Log Warn_illegal_end_marker # sent))
         \<and> frames_decoded (snd (snd (feed chs (devc, serial, seen) c))) = frames_decoded seen
         \<and> frames_decoded (snd (snd (feed chs (devc, serial, seen) (c @ f)))) = frames_decoded seen + 1"
proof -
  have none: "garbage_before p []" for p
    by (simp add: garbage_before_def)
  define devc1 where "devc1 = devc\<lparr>buf := c @ drop (length c) (buf devc), buflen := 0\<rparr>"
  from assms(5,6) have len: "int (length c) = poll_len (profile devc)"
    "int (length f) = poll_len (profile devc)"
    by (simp_all add: corrupted_frame_def well_formed_frame_def)
  then have lcf: "length c = length f"
    by simp
  have fit: "length c \<le> length (buf devc)"
    using assms(1,2) len by (simp add: profile_ok_def buffer_ok_def)
  have first: "feed chs (devc, serial, seen) c = (devc1, serial, seen @ [Log Warn_illegal_end_marker])"
    using feed_corrupted [OF assms(1-4) none assms(5), of chs seen] by (simp add: devc1_def)
  have second: "feed chs (devc1, serial, seen @ [Log Warn_illegal_end_marker]) ([] @ f) =
           (case handle_poll_data chs
                   (devc1\<lparr>buf := f @ drop (length f) (buf devc1), buflen := int (length f)\<rparr>) of
              (d, sent) \<Rightarrow>
                (d\<lparr>buflen := 0\<rparr>, serial,
                 (seen @ [Log Warn_illegal_end_marker])
                   @ map (\<lambda>b. Log (Warn_illegal_poll_header b)) [] @ sent))"
  proof (rule feed_well_formed [OF _ _ _ assms(4) none])
    show "profile_ok (profile devc1)" "well_formed_frame (profile devc1) f"
      using assms(1,6) by (simp_all add: devc1_def)
    show "buffer_ok devc1"
      using assms(2) fit by (simp add: devc1_def buffer_ok_def)
    show "buflen devc1 = 0"
      by (simp add: devc1_def)
  qed
  have same: "devc1\<lparr>buf := f @ drop (length f) (buf devc1), buflen := int (length f)\<rparr>
                = devc\<lparr>buf := f @ drop (length f) (buf devc), buflen := int (length f)\<rparr>"
    using lcf by (simp add: devc1_def)
  define full where "full = devc\<lparr>buf := f @ drop (length f) (buf devc), buflen := int (length f)\<rparr>"
  obtain d sent where h: "handle_poll_data chs full = (d, sent)"
    by (cases "handle_poll_data chs full")
  have sent: "frames_decoded sent = 1"
    using handle_poll_data_events [of chs full] h by simp
  have both: "feed chs (devc, serial, seen) (c @ f) =
                (d\<lparr>buflen := 0\<rparr>, serial, seen @ Log Warn_illegal_end_marker # sent)"
    unfolding feed_append [of chs _ c f] first
    using second h by (simp add: same full_def [symmetric] del: feed.simps)
  show ?thesis
    unfolding both first full_def [symmetric] h
    using sent by (simp add: devc1_def frames_decoded_append) (simp add: frames_decoded_def)
qed

theorem end_marker_mismatch_discards_buffer_witness:
  "profile_ok (profile (um24c_devc 0)) \<and> buffer_ok (um24c_devc 0)
     \<and> buflen (um24c_devc 0) = 0 \<and> rx idle_port = []
     \<and> corrupted_frame (profile (um24c_devc 0)) damaged_frame
     \<and> well_formed_frame (profile (um24c_devc 0)) example_frame
     \<and> feed um24c_channel_list (um24c_devc 0, idle_port, []) damaged_frame =
           ((um24c_devc 0)\<lparr>buf := damaged_frame @ drop (length damaged_frame) (buf (um24c_devc 0)),
                            buflen := 0\<rparr>,
            idle_port, [Log Warn_illegal_end_marker])
     \<and> frames_decoded (snd (snd (feed um24c_channel_list (um24c_devc 0, idle_port, [])
                                    (damaged_frame @ example_frame)))) = 1"
proof -
  have hyps: "profile_ok (profile (um24c_devc 0))" "buffer_ok (um24c_devc 0)"
    "buflen (um24c_devc 0) = 0" "rx idle_port = []"
    "corrupted_frame (profile (um24c_devc 0)) damaged_frame"
    "well_formed_frame (profile (um24c_devc 0)) example_frame"
    by (simp_all add: um24c_devc_ok um24c_profile_ok damaged_frame_corrupted example_frame_ok)
  note t = end_marker_mismatch_discards_buffer [OF hyps, of um24c_channel_list "[]"]
  from t [THEN conjunct1] t [THEN conjunct2, THEN conjunct2, THEN conjunct2]
  show ?thesis
    using hyps by (simp only: frames_decoded_Nil simp_thms add_0 append_Nil)
qed


subsection \<open>What a call of the receive path leaves unchanged\<close>


lemma recv_poll_step_frame:
  "cmd_sent_at (fst (recv_poll_step devc b)) = cmd_sent_at devc
     \<and> limits (fst (recv_poll_step devc b)) = limits devc"
  by (simp add: recv_poll_step_def Let_def)

lemma recv_poll_step_quiet:
  "frames_decoded (snd (recv_poll_step devc b)) = 0
     \<and> Acquisition_stop \<notin> set (snd (recv_poll_step devc b))"
  using recv_poll_step_events [of devc b] by (auto simp: frames_decoded_def)

lemma recv_poll_loop_frame:
  assumes "recv_poll_loop devc pending = (returned, devc', pending', logged)"
  shows "cmd_sent_at devc' = cmd_sent_at devc \<and> limits devc' = limits devc
           \<and> profile devc' = profile devc
           \<and> frames_decoded logged = 0 \<and> Acquisition_stop \<notin> set logged
           \<and> (\<not> returned \<longrightarrow> poll_len (profile devc) \<le> buflen devc')"
  using assms
proof (induction pending arbitrary: devc logged)
  case Nil
  then show ?case by (auto simp: frames_decoded_def split: if_splits)
next
  case (Cons b pending)
  show ?case
  proof (cases "buflen devc < poll_len (profile devc)")
    case False
    with Cons.prems show ?thesis by (auto simp: frames_decoded_def)
  next
    case True
    obtain devc1 logged1 where step: "recv_poll_step devc b = (devc1, logged1)"
      by (cases "recv_poll_step devc b")
    obtain logged2 where loop: "recv_poll_loop devc1 pending = (returned, devc', pending', logged2)"
      and logged: "logged = logged1 @ logged2"
      using Cons.prems True step by (auto split: prod.splits)
    from recv_poll_step_frame [of devc b] recv_poll_step_quiet [of devc b]
      recv_poll_step_profile [of devc b] step Cons.IH [OF loop] logged
    show ?thesis by (simp add: frames_decoded_append)
  qed
qed

lemma recv_poll_end_frame:
  assumes "recv_poll_end chs devc = (devc', sent)"
  shows "cmd_sent_at devc' = cmd_sent_at devc \<and> profile devc' = profile devc
           \<and> limit_samples (limits devc') = limit_samples (limits devc)
           \<and> samples_read (limits devc') = samples_read (limits devc) + frames_decoded sent
           \<and> frames_decoded sent \<le> 1 \<and> Acquisition_stop \<notin> set sent"
proof (cases "buflen devc = poll_len (profile devc)
               \<and> poll_end (profile devc) \<noteq> None
               \<and> memcmp (drop (nat (buflen devc - poll_end_len (profile devc))) (buf devc))
                    (the (poll_end (profile devc))) (nat (poll_end_len (profile devc))) = 0")
  case True
  then have full: "buflen devc = poll_len (profile devc)" by simp
  from True assms have "devc' = (fst (handle_poll_data chs devc))\<lparr>buflen := 0\<rparr>"
    and "sent = snd (handle_poll_data chs devc)"
    by (auto simp: recv_poll_end_def Let_def split: prod.splits)
  then show ?thesis
    using handle_poll_data_events [of chs devc]
    by (simp add: handle_poll_data_full [OF full])
next
  case False
  with assms show ?thesis
    by (auto simp: recv_poll_end_def Let_def frames_decoded_def split: if_splits)
qed

lemma recv_poll_data_frame:
  assumes "recv_poll_data chs devc serial = (devc', serial', evs)"
  shows "cmd_sent_at devc' = cmd_sent_at devc \<and> profile devc' = profile devc
           \<and> limit_samples (limits devc') = limit_samples (limits devc)
           \<and> samples_read (limits devc') = samples_read (limits devc) + frames_decoded evs
           \<and> frames_decoded evs \<le> 1 \<and> Acquisition_stop \<notin> set evs
           \<and> tx serial' = tx serial \<and> wr serial' = wr serial"
proof -
  obtain returned devc1 pending logged
    where loop: "recv_poll_loop devc (rx serial) = (returned, devc1, pending, logged)"
    by (cases "recv_poll_loop devc (rx serial)")
  note l = recv_poll_loop_frame [OF loop]
  show ?thesis
  proof (cases returned)
    case True
    with assms loop l show ?thesis
      by (auto simp: recv_poll_data_def)
  next
    case False
    obtain devc2 sent where e: "recv_poll_end chs devc1 = (devc2, sent)"
      by (cases "recv_poll_end chs devc1")
    from assms loop False e have "devc' = devc2" "evs = logged @ sent" "serial' = serial\<lparr>rx := pending\<rparr>"
      by (auto simp: recv_poll_data_def)
    with l recv_poll_end_frame [OF e] show ?thesis
      by (simp add: frames_decoded_append)
  qed
qed

lemma c_div_mono: "a \<le> b \<Longrightarrow> c_div a 1000 \<le> c_div b 1000"
proof -
  assume ab: "a \<le> b"
  have nonneg: "0 \<le> x div 1000" if "0 \<le> x" for x :: int
    using that by (simp add: pos_imp_zdiv_nonneg_iff)
  consider "0 \<le> a" | "a < 0" "0 \<le> b" | "b < 0" by linarith
  then show ?thesis
  proof cases
    case 1
    with ab show ?thesis by (simp add: c_div_def zdiv_mono1)
  next
    case 2
    with nonneg [of "- a"] nonneg [of b] show ?thesis by (simp add: c_div_def)
  next
    case 3
    with ab have "(- b) div 1000 \<le> (- a) div 1000" by (intro zdiv_mono1) simp_all
    with 3 ab show ?thesis by (simp add: c_div_def)
  qed
qed

lemma rdtech_um_poll_cases:
  "rdtech_um_poll t devc serial =
     (if wr serial < 0 then (SR_ERR, devc, serial, [Log Err_unable_to_send_poll_request])
      else (SR_OK, devc\<lparr>cmd_sent_at := c_div t 1000\<rparr>,
            serial\<lparr>tx := tx serial @ take (nat (wr serial)) [0xf0]\<rparr>, []))"
  by (simp add: rdtech_um_poll_def serial_write_blocking_def Let_def)


subsection \<open>The poll scheduler\<close>


text \<open>One callback, for a device instance with a context.\<close>

lemma receive_data_step:
  assumes "priv sdi = Some devc"
  shows "\<exists>devc1 serial1 logged.
           (if revents = G_IO_IN then recv_poll_data (sdi_channels sdi) devc (conn sdi)
            else (devc, conn sdi, [])) = (devc1, serial1, logged)
         \<and> cmd_sent_at devc1 = cmd_sent_at devc \<and> profile devc1 = profile devc
         \<and> limit_samples (limits devc1) = limit_samples (limits devc)
         \<and> samples_read (limits devc1) = samples_read (limits devc) + frames_decoded logged
         \<and> frames_decoded logged \<le> 1 \<and> Acquisition_stop \<notin> set logged
         \<and> tx serial1 = tx (conn sdi) \<and> wr serial1 = wr (conn sdi)
         \<and> rdtech_um_receive_data revents t_now t_poll (Some sdi) =
             (if sr_sw_limits_check (limits devc1)
              then (TRUE, Some (sdi\<lparr>priv := Some devc1, conn := serial1\<rparr>),
                    logged @ [Acquisition_stop])
              else if poll_period (profile devc) < c_div t_now 1000 - cmd_sent_at devc
              then (if wr (conn sdi) < 0
                    then (TRUE, Some (sdi\<lparr>priv := Some devc1, conn := serial1\<rparr>),
                          logged @ [Log Err_unable_to_send_poll_request])
                    else (TRUE, Some (sdi\<lparr>priv := Some (devc1\<lparr>cmd_sent_at := c_div t_poll 1000\<rparr>),
                                           conn := serial1\<lparr>tx := tx (conn sdi)
                                                     @ take (nat (wr (conn sdi))) [0xf0]\<rparr>\<rparr>),
                          logged))
              else (TRUE, Some (sdi\<lparr>priv := Some devc1, conn := serial1\<rparr>), logged))"
proof -
  obtain devc1 serial1 logged where r:
    "(if revents = G_IO_IN then recv_poll_data (sdi_channels sdi) devc (conn sdi)
      else (devc, conn sdi, [])) = (devc1, serial1, logged)"
    by (cases "if revents = G_IO_IN then recv_poll_data (sdi_channels sdi) devc (conn sdi)
               else (devc, conn sdi, [])")
  have f: "cmd_sent_at devc1 = cmd_sent_at devc \<and> profile devc1 = profile devc
         \<and> limit_samples (limits devc1) = limit_samples (limits devc)
         \<and> samples_read (limits devc1) = samples_read (limits devc) + frames_decoded logged
         \<and> frames_decoded logged \<le> 1 \<and> Acquisition_stop \<notin> set logged
         \<and> tx serial1 = tx (conn sdi) \<and> wr serial1 = wr (conn sdi)"
  proof (cases "revents = G_IO_IN")
    case True
    with r recv_poll_data_frame [of "sdi_channels sdi" devc "conn sdi" devc1 serial1 logged]
    show ?thesis by simp
  next
    case False
    with r show ?thesis by (auto simp: frames_decoded_def)
  qed
  have "rdtech_um_receive_data revents t_now t_poll (Some sdi) =
             (if sr_sw_limits_check (limits devc1)
              then (TRUE, Some (sdi\<lparr>priv := Some devc1, conn := serial1\<rparr>),
                    logged @ [Acquisition_stop])
              else if poll_period (profile devc) < c_div t_now 1000 - cmd_sent_at devc
              then (if wr (conn sdi) < 0
                    then (TRUE, Some (sdi\<lparr>priv := Some devc1, conn := serial1\<rparr>),
                          logged @ [Log Err_unable_to_send_poll_request])
                    else (TRUE, Some (sdi\<lparr>priv := Some (devc1\<lparr>cmd_sent_at := c_div t_poll 1000\<rparr>),
                                           conn := serial1\<lparr>tx := tx (conn sdi)
                                                     @ take (nat (wr (conn sdi))) [0xf0]\<rparr>\<rparr>),
                          logged))
              else (TRUE, Some (sdi\<lparr>priv := Some devc1, conn := serial1\<rparr>), logged))"
    unfolding rdtech_um_receive_data_def
    using assms r f by (simp add: rdtech_um_poll_cases Let_def)
  with r f show ?thesis by blast
qed




lemma um24c_sdi_simps:
  "priv (um24c_sdi cap) = Some (um24c_devc cap)" "conn (um24c_sdi cap) = idle_port"
  "sdi_channels (um24c_sdi cap) = um24c_channel_list"
  "limits (um24c_devc cap) = \<lparr>limit_samples = cap, samples_read = 0\<rparr>"
  "cmd_sent_at (um24c_devc cap) = 0" "wr idle_port = 1" "tx idle_port = []"
  "poll_period rdtech_um24c_profile = 100"
  by (simp_all add: um24c_sdi_def um24c_devc_def idle_port_def rdtech_um24c_profile_def)



text \<open>
  C10, as amended. When the write of the poll request returns an error (a negative
  result), \<open>rdtech_um_poll\<close> returns the error and leaves the context, with the time
  of the last poll, and the port as they were; the time is set exactly when the write
  returns no error. So a callback whose poll returns the error changes nothing, and at
  any later callback the poll is due again: the byte goes out as soon as the port
  accepts it.
\<close>

theorem failed_poll_keeps_timestamp:
  assumes "priv sdi = Some devc" and "wr (conn sdi) < 0"
    and "\<not> sr_sw_limits_check (limits devc)" and "revents \<noteq> G_IO_IN"
    and "poll_period (profile devc) < c_div t1 1000 - cmd_sent_at devc" and "t1 \<le> t2"
  shows "rdtech_um_poll t devc (conn sdi)
           = (SR_ERR, devc, conn sdi, [Log Err_unable_to_send_poll_request])
         \<and> cmd_sent_at (fst (snd (rdtech_um_poll t devc port)))
             = (if wr port < 0 then cmd_sent_at devc else c_div t 1000)
         \<and> rdtech_um_receive_data revents t1 t1' (Some sdi)
             = (TRUE, Some sdi, [Log Err_unable_to_send_poll_request])
         \<and> rdtech_um_receive_data revents t2 t2' (Some (sdi\<lparr>conn := (conn sdi)\<lparr>wr := 1\<rparr>\<rparr>))
             = (TRUE,
                Some (sdi\<lparr>priv := Some (devc\<lparr>cmd_sent_at := c_div t2' 1000\<rparr>),
                          conn := (conn sdi)\<lparr>tx := tx (conn sdi) @ [0xf0], wr := 1\<rparr>\<rparr>),
                [])"
proof -
  have same: "sdi\<lparr>priv := Some devc, conn := conn sdi\<rparr> = sdi"
    using assms(1) by (cases sdi) simp
  have later: "poll_period (profile devc) < c_div t2 1000 - cmd_sent_at devc"
    using c_div_mono [OF assms(6)] assms(5) by linarith
  have first: "rdtech_um_receive_data revents t1 t1' (Some sdi)
                 = (TRUE, Some sdi, [Log Err_unable_to_send_poll_request])"
    using assms(1-5) by (simp add: rdtech_um_receive_data_def rdtech_um_poll_cases Let_def same)
  have second: "rdtech_um_receive_data revents t2 t2' (Some (sdi\<lparr>conn := (conn sdi)\<lparr>wr := 1\<rparr>\<rparr>))
             = (TRUE,
                Some (sdi\<lparr>priv := Some (devc\<lparr>cmd_sent_at := c_div t2' 1000\<rparr>),
                          conn := (conn sdi)\<lparr>tx := tx (conn sdi) @ [0xf0], wr := 1\<rparr>\<rparr>),
                [])"
    using assms(1,3,4) later
    by (simp add: rdtech_um_receive_data_def rdtech_um_poll_cases Let_def)
  show ?thesis
    using assms(2) first second by (simp add: rdtech_um_poll_cases)
qed

theorem failed_poll_keeps_timestamp_witness:
  "priv (um24c_sdi 0\<lparr>conn := idle_port\<lparr>wr := - 1\<rparr>\<rparr>) = Some (um24c_devc 0)
     \<and> wr (conn (um24c_sdi 0\<lparr>conn := idle_port\<lparr>wr := - 1\<rparr>\<rparr>)) < 0
     \<and> \<not> sr_sw_limits_check (limits (um24c_devc 0)) \<and> (0::int) \<noteq> G_IO_IN
     \<and> poll_period (profile (um24c_devc 0)) < c_div 101000 1000 - cmd_sent_at (um24c_devc 0)
     \<and> (101000 :: int) \<le> 102000
     \<and> rdtech_um_poll 101000 (um24c_devc 0) (idle_port\<lparr>wr := - 1\<rparr>)
         = (SR_ERR, um24c_devc 0, idle_port\<lparr>wr := - 1\<rparr>, [Log Err_unable_to_send_poll_request])
     \<and> rdtech_um_receive_data 0 101000 101000 (Some (um24c_sdi 0\<lparr>conn := idle_port\<lparr>wr := - 1\<rparr>\<rparr>))
         = (TRUE, Some (um24c_sdi 0\<lparr>conn := idle_port\<lparr>wr := - 1\<rparr>\<rparr>),
            [Log Err_unable_to_send_poll_request])
     \<and> rdtech_um_receive_data 0 102000 102000 (Some (um24c_sdi 0))
         = (TRUE,
            Some (um24c_sdi 0\<lparr>priv := Some (um24c_devc 0\<lparr>cmd_sent_at := 102\<rparr>),
                             conn := idle_port\<lparr>tx := [0xf0]\<rparr>\<rparr>),
            [])"
proof -
  have hyps: "priv (um24c_sdi 0\<lparr>conn := idle_port\<lparr>wr := - 1\<rparr>\<rparr>) = Some (um24c_devc 0)"
    "wr (conn (um24c_sdi 0\<lparr>conn := idle_port\<lparr>wr := - 1\<rparr>\<rparr>)) < 0"
    "\<not> sr_sw_limits_check (limits (um24c_devc 0))" "(0::int) \<noteq> G_IO_IN"
    "poll_period (profile (um24c_devc 0)) < c_div 101000 1000 - cmd_sent_at (um24c_devc 0)"
    "(101000 :: int) \<le> 102000"
    by (simp_all add: um24c_sdi_simps um24c_devc_ok c_div_def sr_sw_limits_check_def G_IO_IN_def)
  have c: "c_div 102000 1000 = 102"
    by (simp add: c_div_def)
  have p: "idle_port\<lparr>wr := 1\<rparr> = idle_port" "um24c_sdi 0\<lparr>conn := idle_port\<rparr> = um24c_sdi 0"
    by (simp_all add: idle_port_def um24c_sdi_def)
  from failed_poll_keeps_timestamp [OF hyps, of 101000 idle_port 101000 102000]
  show ?thesis
    using hyps by (simp add: um24c_sdi_simps c p)
qed

text \<open>
  C10 as stated fails: a write that times out before the byte has gone out returns
  zero, which is not an error. The poll then returns \<^verbatim>\<open>SR_OK\<close> with nothing written and
  sets the time of the last poll, and a callback within the period that follows sends
  no request although the port accepts it again.
\<close>

theorem poll_without_byte_sent_sets_timestamp:
  "serial_write_blocking (idle_port\<lparr>wr := 0\<rparr>) [0xf0] = (0, idle_port\<lparr>wr := 0\<rparr>)
     \<and> rdtech_um_poll 101000 (um24c_devc 0) (idle_port\<lparr>wr := 0\<rparr>)
         = (SR_OK, (um24c_devc 0)\<lparr>cmd_sent_at := 101\<rparr>, idle_port\<lparr>wr := 0\<rparr>, [])
     \<and> cmd_sent_at (um24c_devc 0) = 0
     \<and> rdtech_um_receive_data 0 101000 101000
           (Some ((um24c_sdi 0)\<lparr>conn := idle_port\<lparr>wr := 0\<rparr>\<rparr>))
         = (TRUE,
            Some ((um24c_sdi 0)\<lparr>priv := Some ((um24c_devc 0)\<lparr>cmd_sent_at := 101\<rparr>),
                                conn := idle_port\<lparr>wr := 0\<rparr>\<rparr>),
            [])
     \<and> rdtech_um_receive_data 0 200000 200000
           (Some ((um24c_sdi 0)\<lparr>priv := Some ((um24c_devc 0)\<lparr>cmd_sent_at := 101\<rparr>),
                                conn := idle_port\<rparr>))
         = (TRUE,
            Some ((um24c_sdi 0)\<lparr>priv := Some ((um24c_devc 0)\<lparr>cmd_sent_at := 101\<rparr>),
                                conn := idle_port\<rparr>),
            [])"
  by (simp add: rdtech_um_receive_data_def rdtech_um_poll_cases serial_write_blocking_def
      um24c_sdi_def um24c_devc_def idle_port_def c_div_def sr_sw_limits_check_def G_IO_IN_def
      rdtech_um24c_profile_def SR_OK_def TRUE_def Let_def)


subsection \<open>The sample cap\<close>


lemma run_session_counts:
  assumes "priv sdi = Some devc" and "0 < limit_samples (limits devc)"
    and "samples_read (limits devc) < limit_samples (limits devc)"
  shows "\<exists>sdi' devc' evs.
           run_session sdi cbs = (sdi', evs) \<and> priv sdi' = Some devc'
         \<and> limit_samples (limits devc') = limit_samples (limits devc)
         \<and> samples_read (limits devc') = samples_read (limits devc) + frames_decoded evs
         \<and> samples_read (limits devc') \<le> limit_samples (limits devc)
         \<and> count_list evs Acquisition_stop
             = (if samples_read (limits devc') = limit_samples (limits devc) then 1 else 0)
         \<and> (Acquisition_stop \<in> set evs \<longrightarrow> last evs = Acquisition_stop)"
  using assms
proof (induction cbs arbitrary: sdi devc)
  case Nil
  then show ?case by (simp add: frames_decoded_def)
next
  case (Cons cb cbs)
  define sdi0 where
    "sdi0 = sdi\<lparr>conn := (conn sdi)\<lparr>rx := rx (conn sdi) @ cb_arrived cb, wr := cb_wr cb\<rparr>\<rparr>"
  have p0: "priv sdi0 = Some devc"
    using Cons.prems(1) by (simp add: sdi0_def)
  from receive_data_step [OF p0, of "cb_revents cb" "cb_now cb" "cb_poll_time cb"]
  obtain devc1 serial1 logged where
    f: "limit_samples (limits devc1) = limit_samples (limits devc)"
      "samples_read (limits devc1) = samples_read (limits devc) + frames_decoded logged"
      "frames_decoded logged \<le> 1" "Acquisition_stop \<notin> set logged"
    and run: "rdtech_um_receive_data (cb_revents cb) (cb_now cb) (cb_poll_time cb) (Some sdi0) =
             (if sr_sw_limits_check (limits devc1)
              then (TRUE, Some (sdi0\<lparr>priv := Some devc1, conn := serial1\<rparr>),
                    logged @ [Acquisition_stop])
              else if poll_period (profile devc) < c_div (cb_now cb) 1000 - cmd_sent_at devc
              then (if wr (conn sdi0) < 0
                    then (TRUE, Some (sdi0\<lparr>priv := Some devc1, conn := serial1\<rparr>),
                          logged @ [Log Err_unable_to_send_poll_request])
                    else (TRUE, Some (sdi0\<lparr>priv := Some (devc1\<lparr>cmd_sent_at := c_div (cb_poll_time cb) 1000\<rparr>),
                                           conn := serial1\<lparr>tx := tx (conn sdi0)
                                                     @ take (nat (wr (conn sdi0))) [0xf0]\<rparr>\<rparr>),
                          logged))
              else (TRUE, Some (sdi0\<lparr>priv := Some devc1, conn := serial1\<rparr>), logged))"
    by blast
  show ?case
  proof (cases "sr_sw_limits_check (limits devc1)")
    case True
    then have reached: "samples_read (limits devc1) = limit_samples (limits devc)"
      using f(1,2,3) Cons.prems(3) by (simp add: sr_sw_limits_check_def)
    have "run_session sdi (cb # cbs)
            = (sdi0\<lparr>priv := Some devc1, conn := serial1\<rparr>, logged @ [Acquisition_stop])"
      using run True by (simp add: sdi0_def [symmetric])
    then show ?thesis
      using f reached
      by (intro exI [of _ "sdi0\<lparr>priv := Some devc1, conn := serial1\<rparr>"] exI [of _ devc1]
          exI [of _ "logged @ [Acquisition_stop]"])
        (simp add: frames_decoded_append frames_decoded_def count_list_0_iff)
  next
    case False
    then obtain sdi1 devc2 logged2 where
      step: "rdtech_um_receive_data (cb_revents cb) (cb_now cb) (cb_poll_time cb) (Some sdi0)
               = (TRUE, Some sdi1, logged @ logged2)"
      and p1: "priv sdi1 = Some devc2" and l2: "limits devc2 = limits devc1"
      and q2: "frames_decoded logged2 = 0" "Acquisition_stop \<notin> set logged2"
      unfolding run by (cases "poll_period (profile devc) < c_div (cb_now cb) 1000 - cmd_sent_at devc";
          cases "wr (conn sdi0) < 0") (auto simp: frames_decoded_def)
    have below: "samples_read (limits devc2) < limit_samples (limits devc2)"
      "0 < limit_samples (limits devc2)"
      using False f(1) Cons.prems(2) by (simp_all add: sr_sw_limits_check_def l2)
    from Cons.IH [OF p1 below(2,1), unfolded l2]
    obtain sdi' devc' evs where
      ih: "run_session sdi1 cbs = (sdi', evs)" "priv sdi' = Some devc'"
        "limit_samples (limits devc') = limit_samples (limits devc1)"
        "samples_read (limits devc') = samples_read (limits devc1) + frames_decoded evs"
        "samples_read (limits devc') \<le> limit_samples (limits devc1)"
        "count_list evs Acquisition_stop
             = (if samples_read (limits devc') = limit_samples (limits devc1) then 1 else 0)"
        "Acquisition_stop \<in> set evs \<longrightarrow> last evs = Acquisition_stop"
      by blast
    have quiet: "Acquisition_stop \<notin> set (logged @ logged2)"
      using f(4) q2(2) by simp
    then have c0: "count_list (logged @ logged2) Acquisition_stop = 0"
      unfolding count_list_0_iff .
    have "run_session sdi (cb # cbs) = (sdi', (logged @ logged2) @ evs)"
      using step ih(1) quiet by (simp add: sdi0_def [symmetric])
    moreover have "last ((logged @ logged2) @ evs) = Acquisition_stop"
      if "Acquisition_stop \<in> set ((logged @ logged2) @ evs)"
    proof -
      from that quiet have "Acquisition_stop \<in> set evs" by auto
      with ih(7) show ?thesis by (cases evs) auto
    qed
    ultimately show ?thesis
      using ih(2-6) f(1,2) q2(1) c0
      by (intro exI [of _ sdi'] exI [of _ devc'] exI [of _ "(logged @ logged2) @ evs"])
        (simp add: frames_decoded_append del: append_assoc)
  qed
qed

text \<open>
  C7. In a session with a sample cap, each frame handed to the decoder adds exactly
  one to the count of samples read, however many channels it has; the stop signal is
  raised at most once, it is raised if and only if the count has reached the cap, it
  is then the last event of the session (so the cap's worth of frames were decoded
  before it and nothing after it), and the count never passes the cap.
\<close>

theorem stop_signal_once_at_sample_cap:
  assumes "priv sdi = Some devc" and "0 < limit_samples (limits devc)"
    and "samples_read (limits devc) = 0"
  shows "\<exists>sdi' devc' evs.
           run_session sdi cbs = (sdi', evs) \<and> priv sdi' = Some devc'
         \<and> samples_read (limits devc') = frames_decoded evs
         \<and> frames_decoded evs \<le> limit_samples (limits devc)
         \<and> count_list evs Acquisition_stop
             = (if frames_decoded evs = limit_samples (limits devc) then 1 else 0)
         \<and> (Acquisition_stop \<in> set evs \<longrightarrow> last evs = Acquisition_stop)"
proof -
  have "samples_read (limits devc) < limit_samples (limits devc)"
    using assms(2,3) by simp
  from run_session_counts [OF assms(1,2) this, of cbs]
  obtain sdi' devc' evs where
    r: "run_session sdi cbs = (sdi', evs)" "priv sdi' = Some devc'"
      "samples_read (limits devc') = samples_read (limits devc) + frames_decoded evs"
      "samples_read (limits devc') \<le> limit_samples (limits devc)"
      "count_list evs Acquisition_stop
         = (if samples_read (limits devc') = limit_samples (limits devc) then 1 else 0)"
      "Acquisition_stop \<in> set evs \<longrightarrow> last evs = Acquisition_stop"
    by blast
  have n: "samples_read (limits devc') = frames_decoded evs"
    using r(3) assms(3) by simp
  show ?thesis
    using r(1,2,6) r(4,5) [unfolded n] n
    by (intro exI [of _ sdi'] exI [of _ devc'] exI [of _ evs]) simp
qed



text \<open>A whole frame pending on the port is read by one call.\<close>

lemma recv_poll_loop_fill:
  assumes "profile_ok (profile devc)"
    and "buf devc = c @ t" and "buflen devc = int (length c)"
    and "int (length (c @ ys)) \<le> poll_len (profile devc)"
    and "length ys \<le> length t"
    and "\<And>s. poll_start (profile devc) = Some s \<Longrightarrow> length c < length s
           \<Longrightarrow> length s \<le> length (c @ ys) \<Longrightarrow> take (length s) (c @ ys) = s"
  shows "recv_poll_loop devc ys =
           (int (length (c @ ys)) < poll_len (profile devc),
            devc\<lparr>buf := (c @ ys) @ drop (length ys) t, buflen := int (length (c @ ys))\<rparr>,
            [], [])"
  using assms
proof (induction ys arbitrary: devc c t)
  case Nil
  then show ?case by (simp add: dev_context_same)
next
  case (Cons b ys)
  from Cons.prems(5) obtain x t0 where t: "t = x # t0"
    by (cases t) auto
  define devc1 where "devc1 = devc\<lparr>buf := (c @ [b]) @ t0, buflen := int (length (c @ [b]))\<rparr>"
  have keep: "c @ [b] = s" if "poll_start (profile devc) = Some s" "length s = Suc (length c)" for s
  proof -
    have "take (length s) (c @ b # ys) = s"
      using Cons.prems(6) [OF that(1)] that(2) by simp
    then show ?thesis
      using that(2) by simp
  qed
  have step: "recv_poll_step devc b = (devc1, [])"
    unfolding devc1_def
    using Cons.prems(2,3) keep t
    by (intro recv_poll_step_keep [OF Cons.prems(1)]) auto
  have less: "buflen devc < poll_len (profile devc)"
    using Cons.prems(3,4) by simp
  have ih: "recv_poll_loop devc1 ys =
              (int (length ((c @ [b]) @ ys)) < poll_len (profile devc1),
               devc1\<lparr>buf := ((c @ [b]) @ ys) @ drop (length ys) t0,
                      buflen := int (length ((c @ [b]) @ ys))\<rparr>, [], [])"
  proof (rule Cons.IH)
    show "profile_ok (profile devc1)"
      using Cons.prems(1) by (simp add: devc1_def)
    show "buf devc1 = (c @ [b]) @ t0" "buflen devc1 = int (length (c @ [b]))"
      by (simp_all add: devc1_def)
    show "int (length ((c @ [b]) @ ys)) \<le> poll_len (profile devc1)"
      using Cons.prems(4) by (simp add: devc1_def)
    show "length ys \<le> length t0"
      using Cons.prems(5) t by simp
    show "take (length s) ((c @ [b]) @ ys) = s"
      if "poll_start (profile devc1) = Some s" "length (c @ [b]) < length s"
        "length s \<le> length ((c @ [b]) @ ys)" for s
      using Cons.prems(6) [of s] that by (simp add: devc1_def)
  qed
  show ?case
    using less step ih t by (simp add: devc1_def)
qed

lemma recv_poll_data_whole_frame:
  assumes "profile_ok (profile devc)" and "buffer_ok devc" and "buflen devc = 0"
    and "well_formed_frame (profile devc) f"
  shows "recv_poll_data chs devc (serial\<lparr>rx := f\<rparr>) =
           (case handle_poll_data chs
                   (devc\<lparr>buf := f @ drop (length f) (buf devc), buflen := int (length f)\<rparr>) of
              (d, sent) \<Rightarrow> (d\<lparr>buflen := 0\<rparr>, serial\<lparr>rx := []\<rparr>, sent))"
proof -
  define full where "full = devc\<lparr>buf := f @ drop (length f) (buf devc), buflen := int (length f)\<rparr>"
  from assms(4) have len: "int (length f) = poll_len (profile devc)"
    and start: "starts_with_marker (profile devc) f" and "end": "ends_with_marker (profile devc) f"
    by (simp_all add: well_formed_frame_def)
  have fit: "length f \<le> length (buf devc)"
    using assms(1,2) len by (simp add: profile_ok_def buffer_ok_def)
  have "recv_poll_loop devc f =
           (int (length ([] @ f)) < poll_len (profile devc),
            devc\<lparr>buf := ([] @ f) @ drop (length f) (buf devc), buflen := int (length ([] @ f))\<rparr>,
            [], [])"
  proof (rule recv_poll_loop_fill [OF assms(1)])
    show "buf devc = [] @ buf devc" by simp
    show "buflen devc = int (length ([]::byte list))"
      using assms(3) by simp
    show "int (length ([] @ f)) \<le> poll_len (profile devc)"
      using len by simp
    show "length f \<le> length (buf devc)" by fact
    show "take (length s) ([] @ f) = s" if "poll_start (profile devc) = Some s" for s
      using start that by (simp add: starts_with_marker_def)
  qed
  then have loop: "recv_poll_loop devc f = (False, full, [], [])"
    using len by (simp add: full_def)
  have "recv_poll_end chs full =
          (case handle_poll_data chs full of (d, sent) \<Rightarrow> (d\<lparr>buflen := 0\<rparr>, sent))"
    using recv_poll_end_cases [of full f "drop (length f) (buf devc)" chs] assms(1) len "end"
    by (simp add: full_def)
  then show ?thesis
    using loop by (simp add: recv_poll_data_def full_def [symmetric] split: prod.splits)
qed



lemma frame_callback_step:
  assumes "priv sdi = Some devc" and "profile devc = rdtech_um24c_profile"
    and "buffer_ok devc" and "buflen devc = 0" and "rx (conn sdi) = []"
    and "0 \<le> cmd_sent_at devc"
    and "samples_read (limits devc) < limit_samples (limits devc)"
  shows "\<exists>sdi1 devc1 sent.
           run_session sdi (frame_callback # cbs) =
             (if limit_samples (limits devc) = samples_read (limits devc) + 1
              then (sdi1, sent @ [Acquisition_stop])
              else (fst (run_session sdi1 cbs), sent @ snd (run_session sdi1 cbs)))
         \<and> frames_decoded sent = 1
         \<and> priv sdi1 = Some devc1 \<and> profile devc1 = rdtech_um24c_profile
         \<and> buffer_ok devc1 \<and> buflen devc1 = 0 \<and> rx (conn sdi1) = []
         \<and> cmd_sent_at devc1 = cmd_sent_at devc
         \<and> limit_samples (limits devc1) = limit_samples (limits devc)
         \<and> samples_read (limits devc1) = samples_read (limits devc) + 1"
proof -
  define full where
    "full = devc\<lparr>buf := example_frame @ drop (length example_frame) (buf devc),
                 buflen := int (length example_frame)\<rparr>"
  define devc1 where
    "devc1 = full\<lparr>limits := (limits devc)\<lparr>samples_read := samples_read (limits devc) + 1\<rparr>,
                  buflen := 0\<rparr>"
  define sent where
    "sent = Log (Spew_received_poll_packet (buflen full)) # send_channels full 0 (sdi_channels sdi)"
  define port where "port = (conn sdi)\<lparr>rx := [], wr := 1\<rparr>"
  define sdi1 where "sdi1 = sdi\<lparr>priv := Some devc1, conn := port\<rparr>"
  have ok: "profile_ok (profile devc)" "well_formed_frame (profile devc) example_frame"
    using assms(2) by (simp_all add: um24c_profile_ok example_frame_ok)
  have len: "length example_frame = 130"
    by (simp add: example_frame_def)
  have fullK: "buflen full = poll_len (profile full)"
    using assms(2) by (simp add: full_def len um24c_poll_len)
  have h: "handle_poll_data (sdi_channels sdi) full
             = (full\<lparr>limits := (limits devc)\<lparr>samples_read := samples_read (limits devc) + 1\<rparr>\<rparr>, sent)"
    using handle_poll_data_full [OF fullK, of "sdi_channels sdi"]
    by (simp add: sent_def) (simp add: full_def)
  have swap: "(conn sdi)\<lparr>rx := xs, wr := 1\<rparr> = (conn sdi)\<lparr>wr := 1\<rparr>\<lparr>rx := xs\<rparr>" for xs
    by (cases "conn sdi") simp
  have recv: "recv_poll_data (sdi_channels sdi) devc ((conn sdi)\<lparr>rx := example_frame, wr := 1\<rparr>)
                = (devc1, port, sent)"
    unfolding swap port_def
    using recv_poll_data_whole_frame [OF ok(1) assms(3,4) ok(2), of "sdi_channels sdi"
        "(conn sdi)\<lparr>wr := 1\<rparr>"] h
    by (simp add: full_def [symmetric] devc1_def)
  have nopoll: "\<not> poll_period (profile devc1) < c_div 0 1000 - cmd_sent_at devc1"
    using assms(2,6) by (simp add: devc1_def full_def c_div_def um24c_sdi_simps)
  have check: "sr_sw_limits_check (limits devc1)
                 \<longleftrightarrow> limit_samples (limits devc) = samples_read (limits devc) + 1"
    using assms(7) by (auto simp: sr_sw_limits_check_def devc1_def)
  have cb: "rdtech_um_receive_data G_IO_IN 0 0
              (Some (sdi\<lparr>conn := (conn sdi)\<lparr>rx := rx (conn sdi) @ example_frame, wr := 1\<rparr>\<rparr>))
            = (if sr_sw_limits_check (limits devc1)
               then (TRUE, Some sdi1, sent @ [Acquisition_stop])
               else (TRUE, Some sdi1, sent))"
    using assms(1,5) recv nopoll
    by (simp add: rdtech_um_receive_data_def Let_def sdi1_def)
  have quiet: "Acquisition_stop \<notin> set sent" "frames_decoded sent = 1"
    using send_channels_quiet [of full 0 "sdi_channels sdi"]
    by (simp_all add: sent_def frames_decoded_def)
  have props: "priv sdi1 = Some devc1" "profile devc1 = rdtech_um24c_profile"
    "buffer_ok devc1" "buflen devc1 = 0" "rx (conn sdi1) = []"
    "cmd_sent_at devc1 = cmd_sent_at devc"
    "limit_samples (limits devc1) = limit_samples (limits devc)"
    "samples_read (limits devc1) = samples_read (limits devc) + 1"
    using assms(2,3)
    by (simp_all add: sdi1_def devc1_def full_def port_def buffer_ok_def len
        RDTECH_UM_BUFSIZE_def)
  show ?thesis
  proof (cases "limit_samples (limits devc) = samples_read (limits devc) + 1")
    case True
    then have "sr_sw_limits_check (limits devc1)"
      using check by simp
    with cb True have "run_session sdi (frame_callback # cbs) = (sdi1, sent @ [Acquisition_stop])"
      by (simp add: frame_callback_def)
    with True quiet(2) props show ?thesis
      by (intro exI [of _ sdi1] exI [of _ devc1] exI [of _ sent]) simp
  next
    case False
    then have "\<not> sr_sw_limits_check (limits devc1)"
      using check by simp
    with cb False quiet(1)
    have "run_session sdi (frame_callback # cbs)
            = (fst (run_session sdi1 cbs), sent @ snd (run_session sdi1 cbs))"
      by (simp add: frame_callback_def split: prod.splits)
    with False quiet(2) props show ?thesis
      by (intro exI [of _ sdi1] exI [of _ devc1] exI [of _ sent]) simp
  qed
qed

text \<open>
  A UM24C session in which whole responses keep arriving, one per callback: when
  \<open>n\<close> frames are missing to the cap, exactly \<open>n\<close> more are decoded.
\<close>

lemma frames_until_cap:
  assumes "priv sdi = Some devc" and "profile devc = rdtech_um24c_profile"
    and "buffer_ok devc" and "buflen devc = 0" and "rx (conn sdi) = []"
    and "0 \<le> cmd_sent_at devc"
    and "samples_read (limits devc) + Suc n = limit_samples (limits devc)"
  shows "frames_decoded (snd (run_session sdi (replicate (Suc n + m) frame_callback))) = Suc n"
  using assms
proof (induction n arbitrary: sdi devc)
  case 0
  then have below: "samples_read (limits devc) < limit_samples (limits devc)"
    by simp
  from frame_callback_step [OF 0(1-6) below, of "replicate m frame_callback"] 0(7)
  show ?case
    by (auto simp: frames_decoded_append frames_decoded_def)
next
  case (Suc n)
  then have below: "samples_read (limits devc) < limit_samples (limits devc)"
    by simp
  from frame_callback_step [OF Suc.prems(1-6) below, of "replicate (Suc n + m) frame_callback"]
  obtain sdi1 devc1 sent where
    run: "run_session sdi (frame_callback # replicate (Suc n + m) frame_callback) =
             (if limit_samples (limits devc) = samples_read (limits devc) + 1
              then (sdi1, sent @ [Acquisition_stop])
              else (fst (run_session sdi1 (replicate (Suc n + m) frame_callback)),
                    sent @ snd (run_session sdi1 (replicate (Suc n + m) frame_callback))))"
    and sent: "frames_decoded sent = 1"
    and props: "priv sdi1 = Some devc1" "profile devc1 = rdtech_um24c_profile"
      "buffer_ok devc1" "buflen devc1 = 0" "rx (conn sdi1) = []"
      "cmd_sent_at devc1 = cmd_sent_at devc"
      "limit_samples (limits devc1) = limit_samples (limits devc)"
      "samples_read (limits devc1) = samples_read (limits devc) + 1"
    by blast
  have c1: "0 \<le> cmd_sent_at devc1"
    using props(6) Suc.prems(6) by simp
  have n1: "samples_read (limits devc1) + Suc n = limit_samples (limits devc1)"
    using props(7,8) Suc.prems(7) by simp
  have more: "limit_samples (limits devc) \<noteq> samples_read (limits devc) + 1"
    using Suc.prems(7) by simp
  from Suc.IH [OF props(1-5) c1 n1] run more sent
  show ?case
    by (simp add: frames_decoded_append)
qed



theorem stop_signal_once_at_sample_cap_witness:
  "priv (um24c_sdi 3) = Some (um24c_devc 3)
     \<and> 0 < limit_samples (limits (um24c_devc 3))
     \<and> samples_read (limits (um24c_devc 3)) = 0
     \<and> (\<exists>sdi' devc' evs.
           run_session (um24c_sdi 3) (replicate 5 frame_callback) = (sdi', evs)
         \<and> priv sdi' = Some devc' \<and> samples_read (limits devc') = 3
         \<and> frames_decoded evs = 3 \<and> count_list evs Acquisition_stop = 1
         \<and> last evs = Acquisition_stop)"
proof -
  have hyps: "priv (um24c_sdi 3) = Some (um24c_devc 3)"
    "0 < limit_samples (limits (um24c_devc 3))"
    "samples_read (limits (um24c_devc 3)) = 0"
    by (simp_all add: um24c_sdi_simps)
  from stop_signal_once_at_sample_cap [OF hyps, of "replicate 5 frame_callback"]
  obtain sdi' devc' evs where
    r: "run_session (um24c_sdi 3) (replicate 5 frame_callback) = (sdi', evs)"
      "priv sdi' = Some devc'" "samples_read (limits devc') = frames_decoded evs"
      "count_list evs Acquisition_stop
         = (if frames_decoded evs = limit_samples (limits (um24c_devc 3)) then 1 else 0)"
      "Acquisition_stop \<in> set evs \<longrightarrow> last evs = Acquisition_stop"
    by blast
  have "frames_decoded (snd (run_session (um24c_sdi 3) (replicate (Suc 2 + 2) frame_callback)))
          = Suc 2"
    by (rule frames_until_cap [of _ "um24c_devc 3"])
      (simp_all add: um24c_sdi_simps um24c_devc_ok)
  moreover have "Suc 2 + 2 = (5::nat)" "Suc 2 = (3::nat)"
    by simp_all
  ultimately have three: "frames_decoded evs = 3"
    using r(1) by simp
  then have one: "count_list evs Acquisition_stop = 1"
    using r(4) by (simp add: um24c_sdi_simps)
  then have "Acquisition_stop \<in> set evs"
    using count_list_0_iff [of evs Acquisition_stop] by simp
  with r three one hyps show ?thesis
    by simp
qed


subsection \<open>The sample decoder\<close>


lemma normalize_sig_numeral:
  "normalize_sig (numeral k) prec emin m e =
     (if 2 ^ prec \<le> m then normalize_sig (pred_numeral k) prec emin (m / 2) (e + 1)
      else if m < 2 ^ (prec - 1) \<and> emin < e then normalize_sig (pred_numeral k) prec emin (2 * m) (e - 1)
      else (m, e))"
  by (simp add: numeral_eq_Suc)

lemmas float_eval = round_binary32_def round_binary64_def round_binary_def normalize_sig_numeral
  round_half_even_def pow2_def Let_def float_of_double_literal_def float_of_int_def

lemma scale_0_01: "float_of_double_literal (1 / 100) = Finite (5368709 / 536870912)"
  by (simp add: float_eval)




lemma uint_ucast_byte: "uint (ucast (a::byte) :: 32 word) = uint a"
  by (simp add: uint_up_ucast is_up)

lemma uint_byte_less: "uint (a::byte) < 256"
  using uint_lt2p [of a] by simp

lemma take_bit_8_byte: "take_bit 8 (uint (a::byte)) = uint a"
  by (simp add: take_bit_int_eq_self uint_byte_less)

lemma concat_bytes_16:
  "uint (push_bit 8 (ucast (a::byte)) OR ucast (b::byte) :: 32 word) = concat_bit 8 (uint b) (uint a)"
proof -
  have "uint a * 256 < 2 ^ 32"
    using uint_byte_less [of a] by simp
  then have "take_bit 32 (push_bit 8 (uint a)) = push_bit 8 (uint a)"
    by (simp add: take_bit_int_eq_self push_bit_eq_mult)
  then show ?thesis
    by (simp add: unsigned_or_eq unsigned_push_bit_eq uint_ucast_byte concat_bit_def
        take_bit_8_byte or.commute)
qed

lemma uint_RB16: "uint (RB16 data off) = 256 * uint (data ! off) + uint (data ! (off + 1))"
  unfolding RB16_def concat_bytes_16
  by (simp add: concat_bit_eq take_bit_8_byte push_bit_eq_mult)

lemma concat_bytes_32:
  "uint (push_bit 24 (ucast (a::byte)) OR push_bit 16 (ucast (b::byte))
          OR push_bit 8 (ucast (c::byte)) OR ucast (d::byte) :: 32 word) =
   concat_bit 8 (uint d) (concat_bit 8 (uint c) (concat_bit 8 (uint b) (uint a)))"
proof -
  have "uint a * 16777216 < 2 ^ 32" "uint b * 65536 < 2 ^ 32" "uint c * 256 < 2 ^ 32"
    using uint_byte_less [of a] uint_byte_less [of b] uint_byte_less [of c] by simp_all
  then have "take_bit 32 (push_bit 24 (uint a)) = push_bit 24 (uint a)"
    "take_bit 32 (push_bit 16 (uint b)) = push_bit 16 (uint b)"
    "take_bit 32 (push_bit 8 (uint c)) = push_bit 8 (uint c)"
    by (simp_all add: take_bit_int_eq_self push_bit_eq_mult)
  then show ?thesis
    by (simp add: unsigned_or_eq unsigned_push_bit_eq uint_ucast_byte concat_bit_def
        take_bit_8_byte push_bit_or push_bit_push_bit or.commute or.left_commute)
qed

lemma uint_RB32:
  "uint (RB32 data off) =
     16777216 * uint (data ! off) + 65536 * uint (data ! (off + 1))
       + 256 * uint (data ! (off + 2)) + uint (data ! (off + 3))"
  unfolding RB32_def concat_bytes_32
  by (simp add: concat_bit_eq take_bit_8_byte push_bit_eq_mult)

lemma take_drop_1: "Suc off \<le> length xs \<Longrightarrow> take (Suc 0) (drop off xs) = [xs ! off]"
  by (simp add: Cons_nth_drop_Suc [symmetric])

lemma take_drop_2:
  "off + 2 \<le> length xs \<Longrightarrow> take 2 (drop off xs) = [xs ! off, xs ! (off + 1)]"
  by (simp add: Cons_nth_drop_Suc [symmetric] numeral_2_eq_2)

lemma take_drop_4:
  "off + 4 \<le> length xs \<Longrightarrow>
     take 4 (drop off xs) = [xs ! off, xs ! (off + 1), xs ! (off + 2), xs ! (off + 3)]"
proof -
  assume a: "off + 4 \<le> length xs"
  have "drop off xs = xs ! off # xs ! (off + 1) # xs ! (off + 2) # xs ! (off + 3) # drop (off + 4) xs"
    using a by (simp add: Cons_nth_drop_Suc [symmetric] eval_nat_numeral)
  then show ?thesis by simp
qed

lemma get_sample_supported:
  assumes "ch_type m = RDTECH_UM_UINT8 \<or> ch_type m = RDTECH_UM_UINT16 \<or> ch_type m = RDTECH_UM_UINT32"
    and "nat (ch_offset m) + type_width (ch_type m) \<le> length (buf devc)"
  shows "get_sample devc m =
           (float_mult
              (float_of_int (big_endian (take (type_width (ch_type m))
                                           (drop (nat (ch_offset m)) (buf devc)))))
              (ch_scale m), [])"
proof -
  consider "ch_type m = RDTECH_UM_UINT8" | "ch_type m = RDTECH_UM_UINT16"
    | "ch_type m = RDTECH_UM_UINT32"
    using assms(1) by blast
  then show ?thesis
  proof cases
    case 1
    with assms(2) show ?thesis
      by (simp add: get_sample_def Let_def type_width_def take_drop_1 big_endian_def)
  next
    case 2
    with assms(2) show ?thesis
      by (simp add: get_sample_def Let_def type_width_def take_drop_2 big_endian_def uint_RB16
          RDTECH_UM_UINT8_def RDTECH_UM_UINT16_def)
  next
    case 3
    with assms(2) show ?thesis
      by (simp add: get_sample_def Let_def type_width_def take_drop_4 big_endian_def uint_RB32
          RDTECH_UM_UINT8_def RDTECH_UM_UINT16_def RDTECH_UM_UINT32_def)
  qed
qed



lemma um24c_rows:
  "rdtech_um24c_channels ! 0 =
     \<lparr>ch_name = ''V'', ch_offset = 0x02, ch_type = RDTECH_UM_UINT16,
      ch_scale = float_of_double_literal (1 / 100), ch_digits = 2,
      ch_mq = SR_MQ_VOLTAGE, ch_unit = SR_UNIT_VOLT\<rparr>"
  "rdtech_um24c_channels ! 1 =
     \<lparr>ch_name = ''I'', ch_offset = 0x04, ch_type = RDTECH_UM_UINT16,
      ch_scale = float_of_double_literal (1 / 1000), ch_digits = 3,
      ch_mq = SR_MQ_CURRENT, ch_unit = SR_UNIT_AMPERE\<rparr>"
  "rdtech_um24c_channels ! 4 =
     \<lparr>ch_name = ''Temp'', ch_offset = 0x0A, ch_type = RDTECH_UM_UINT16,
      ch_scale = float_of_double_literal 1, ch_digits = 0,
      ch_mq = SR_MQ_TEMPERATURE, ch_unit = SR_UNIT_CELSIUS\<rparr>"
  "rdtech_um24c_channels ! 5 =
     \<lparr>ch_name = ''Consumption'', ch_offset = 0x6a, ch_type = RDTECH_UM_UINT32,
      ch_scale = float_of_double_literal (1 / 1000), ch_digits = 3,
      ch_mq = SR_MQ_0, ch_unit = SR_UNIT_WATT_HOUR\<rparr>"
  by (simp_all add: rdtech_um24c_channels_def)

lemmas type_tags = RDTECH_UM_UINT8_def RDTECH_UM_UINT16_def RDTECH_UM_UINT32_def


lemma um24c_received_buf:
  "buf um24c_received = example_frame @ replicate 126 0" "length (buf um24c_received) = 256"
  by (simp_all add: um24c_received_def um24c_devc_def example_frame_def)




lemma send_channels_concat:
  "send_channels devc i chs =
     concat (map (\<lambda>j. send_channel devc (channels (profile devc) ! (i + j)) (chs ! j))
               [0..<length chs])"
proof (induction chs arbitrary: i)
  case Nil
  show ?case by simp
next
  case (Cons ch chs)
  have "[0..<length (ch # chs)] = 0 # map Suc [0..<length chs]"
    by (simp add: upt_conv_Cons map_Suc_upt del: upt_Suc)
  then show ?case
    by (simp add: Cons.IH [of "Suc i"] comp_def)
qed

lemma get_sample_unsupported:
  assumes "ch_type m \<noteq> RDTECH_UM_UINT8" and "ch_type m \<noteq> RDTECH_UM_UINT16"
    and "ch_type m \<noteq> RDTECH_UM_UINT32"
  shows "get_sample devc m = (Finite 0, [Log (Err_illegal_data_type (ch_name m) (ch_type m))])"
  using assms by (simp add: get_sample_def Let_def)

text \<open>
  C8. When a whole frame is handed to the decoder and the table row of one channel has
  a type tag that is none of the three encodings, the decode of the frame goes on: the
  sample counter advances by one and one packet per channel is sent, in channel order.
  The sample of that channel is zero and its packet comes right after the logged error.
  Every channel whose row has one of the three encodings, within the buffer, is sent
  with the big-endian integer at its offset times its scale, and logs nothing.
\<close>

theorem unsupported_type_yields_zero:
  assumes "buflen devc = poll_len (profile devc)"
    and "k < length chs"
    and "ch_type (channels (profile devc) ! k) \<noteq> RDTECH_UM_UINT8"
    and "ch_type (channels (profile devc) ! k) \<noteq> RDTECH_UM_UINT16"
    and "ch_type (channels (profile devc) ! k) \<noteq> RDTECH_UM_UINT32"
  shows "get_sample devc (channels (profile devc) ! k) =
           (Finite 0, [Log (Err_illegal_data_type (ch_name (channels (profile devc) ! k))
                                                  (ch_type (channels (profile devc) ! k)))])
         \<and> samples_read (limits (fst (handle_poll_data chs devc))) = samples_read (limits devc) + 1
         \<and> snd (handle_poll_data chs devc) =
             Log (Spew_received_poll_packet (buflen devc)) #
             concat (map (\<lambda>j. send_channel devc (channels (profile devc) ! j) (chs ! j))
                       [0..<length chs])
         \<and> send_channel devc (channels (profile devc) ! k) (chs ! k) =
             [Log (Err_illegal_data_type (ch_name (channels (profile devc) ! k))
                                         (ch_type (channels (profile devc) ! k))),
              Session_send \<lparr>an_data = [Finite 0], an_num_samples = 1,
                an_digits = ch_digits (channels (profile devc) ! k),
                an_spec_digits = ch_digits (channels (profile devc) ! k),
                an_mq = ch_mq (channels (profile devc) ! k),
                an_unit = ch_unit (channels (profile devc) ! k), an_mqflags = 0,
                an_channels = [chs ! k]\<rparr>]
         \<and> (\<forall>j<length chs.
               (ch_type (channels (profile devc) ! j) = RDTECH_UM_UINT8
                  \<or> ch_type (channels (profile devc) ! j) = RDTECH_UM_UINT16
                  \<or> ch_type (channels (profile devc) ! j) = RDTECH_UM_UINT32)
               \<and> nat (ch_offset (channels (profile devc) ! j))
                    + type_width (ch_type (channels (profile devc) ! j)) \<le> length (buf devc)
               \<longrightarrow> send_channel devc (channels (profile devc) ! j) (chs ! j) =
                     [Session_send \<lparr>an_data =
                        [float_mult
                           (float_of_int (big_endian
                              (take (type_width (ch_type (channels (profile devc) ! j)))
                                 (drop (nat (ch_offset (channels (profile devc) ! j))) (buf devc)))))
                           (ch_scale (channels (profile devc) ! j))],
                        an_num_samples = 1,
                        an_digits = ch_digits (channels (profile devc) ! j),
                        an_spec_digits = ch_digits (channels (profile devc) ! j),
                        an_mq = ch_mq (channels (profile devc) ! j),
                        an_unit = ch_unit (channels (profile devc) ! j), an_mqflags = 0,
                        an_channels = [chs ! j]\<rparr>])"
proof -
  note zero = get_sample_unsupported [OF assms(3-5), of devc]
  have "samples_read (limits (fst (handle_poll_data chs devc))) = samples_read (limits devc) + 1"
    by (simp add: handle_poll_data_full [OF assms(1)])
  moreover have "snd (handle_poll_data chs devc) =
             Log (Spew_received_poll_packet (buflen devc)) #
             concat (map (\<lambda>j. send_channel devc (channels (profile devc) ! j) (chs ! j))
                       [0..<length chs])"
    by (simp add: handle_poll_data_full [OF assms(1)] send_channels_concat)
  moreover have "send_channel devc (channels (profile devc) ! k) (chs ! k) =
             [Log (Err_illegal_data_type (ch_name (channels (profile devc) ! k))
                                         (ch_type (channels (profile devc) ! k))),
              Session_send \<lparr>an_data = [Finite 0], an_num_samples = 1,
                an_digits = ch_digits (channels (profile devc) ! k),
                an_spec_digits = ch_digits (channels (profile devc) ! k),
                an_mq = ch_mq (channels (profile devc) ! k),
                an_unit = ch_unit (channels (profile devc) ! k), an_mqflags = 0,
                an_channels = [chs ! k]\<rparr>]"
    by (simp add: send_channel_def zero)
  moreover have "send_channel devc m c =
                     [Session_send \<lparr>an_data =
                        [float_mult
                           (float_of_int (big_endian
                              (take (type_width (ch_type m))
                                 (drop (nat (ch_offset m)) (buf devc)))))
                           (ch_scale m)],
                        an_num_samples = 1,
                        an_digits = ch_digits m,
                        an_spec_digits = ch_digits m,
                        an_mq = ch_mq m,
                        an_unit = ch_unit m, an_mqflags = 0,
                        an_channels = [c]\<rparr>]"
    if "ch_type m = RDTECH_UM_UINT8 \<or> ch_type m = RDTECH_UM_UINT16 \<or> ch_type m = RDTECH_UM_UINT32"
      and "nat (ch_offset m) + type_width (ch_type m) \<le> length (buf devc)" for m c
    by (simp add: send_channel_def get_sample_supported [OF that])
  ultimately show ?thesis
    using zero by blast
qed

lemma untyped_devc_simps:
  "buflen untyped_devc = 130" "poll_len (profile untyped_devc) = 130"
  "channels (profile untyped_devc) = untyped_channel # rdtech_um24c_channels"
  "buf untyped_devc = buf um24c_received"
  "limits untyped_devc = limits um24c_received"
  by (simp_all add: untyped_devc_def um24c_received_def example_frame_def um24c_defs)

theorem unsupported_type_yields_zero_witness:
  "buflen untyped_devc = poll_len (profile untyped_devc)
     \<and> 0 < length (Channel 6 ''X'' # um24c_channel_list)
     \<and> ch_type (channels (profile untyped_devc) ! 0) = 3
     \<and> get_sample untyped_devc (channels (profile untyped_devc) ! 0) =
         (Finite 0, [Log (Err_illegal_data_type ''X'' 3)])
     \<and> send_channel untyped_devc (channels (profile untyped_devc) ! 0)
         ((Channel 6 ''X'' # um24c_channel_list) ! 0) =
         [Log (Err_illegal_data_type ''X'' 3),
          Session_send \<lparr>an_data = [Finite 0], an_num_samples = 1, an_digits = 0,
            an_spec_digits = 0, an_mq = SR_MQ_VOLTAGE, an_unit = SR_UNIT_VOLT, an_mqflags = 0,
            an_channels = [Channel 6 ''X'']\<rparr>]
     \<and> send_channel untyped_devc (channels (profile untyped_devc) ! 1)
         ((Channel 6 ''X'' # um24c_channel_list) ! 1) =
         [Session_send \<lparr>an_data = [Finite (3 / 2)], an_num_samples = 1, an_digits = 2,
            an_spec_digits = 2, an_mq = SR_MQ_VOLTAGE, an_unit = SR_UNIT_VOLT, an_mqflags = 0,
            an_channels = [Channel 0 ''V'']\<rparr>]
     \<and> samples_read (limits (fst (handle_poll_data (Channel 6 ''X'' # um24c_channel_list)
           untyped_devc))) = 1"
proof -
  have h: "buflen untyped_devc = poll_len (profile untyped_devc)"
    "0 < length (Channel 6 ''X'' # um24c_channel_list)"
    "ch_type (channels (profile untyped_devc) ! 0) \<noteq> RDTECH_UM_UINT8"
    "ch_type (channels (profile untyped_devc) ! 0) \<noteq> RDTECH_UM_UINT16"
    "ch_type (channels (profile untyped_devc) ! 0) \<noteq> RDTECH_UM_UINT32"
    by (simp_all add: untyped_devc_simps untyped_channel_def type_tags)
  have x: "channels (profile untyped_devc) ! 0 = untyped_channel"
    by (simp add: untyped_devc_simps)
  have v: "channels (profile untyped_devc) ! 1 = rdtech_um24c_channels ! 0"
    by (simp add: untyped_devc_simps)
  have one: "1 < length (Channel 6 ''X'' # um24c_channel_list)"
    by (simp add: um24c_channel_list_def)
  have sup: "(ch_type (rdtech_um24c_channels ! 0) = RDTECH_UM_UINT8
                  \<or> ch_type (rdtech_um24c_channels ! 0) = RDTECH_UM_UINT16
                  \<or> ch_type (rdtech_um24c_channels ! 0) = RDTECH_UM_UINT32)
               \<and> nat (ch_offset (rdtech_um24c_channels ! 0))
                    + type_width (ch_type (rdtech_um24c_channels ! 0))
                  \<le> length (buf untyped_devc)"
    unfolding um24c_rows
    by (simp add: untyped_devc_simps um24c_received_buf type_width_def type_tags)
  have val: "float_mult (float_of_int (big_endian
                (take (type_width (ch_type (rdtech_um24c_channels ! 0)))
                   (drop (nat (ch_offset (rdtech_um24c_channels ! 0))) (buf untyped_devc)))))
              (ch_scale (rdtech_um24c_channels ! 0)) = Finite (3 / 2)"
    unfolding um24c_rows
    by (simp add: untyped_devc_simps um24c_received_buf(1) example_frame_def type_width_def
        type_tags big_endian_def scale_0_01 float_eval)
  have start: "samples_read (limits untyped_devc) = 0"
    by (simp add: untyped_devc_simps um24c_received_def um24c_devc_def)
  note main = unsupported_type_yields_zero [OF h]
  note c1 = main [THEN conjunct1]
  note c2 = main [THEN conjunct2, THEN conjunct1]
  note c4 = main [THEN conjunct2, THEN conjunct2, THEN conjunct2, THEN conjunct1]
  note c5 = main [THEN conjunct2, THEN conjunct2, THEN conjunct2, THEN conjunct2,
      rule_format, OF one, unfolded v, OF sup]
  have a: "get_sample untyped_devc (channels (profile untyped_devc) ! 0) =
         (Finite 0, [Log (Err_illegal_data_type ''X'' 3)])"
    using c1 unfolding x by (simp add: untyped_channel_def)
  have b: "send_channel untyped_devc (channels (profile untyped_devc) ! 0)
         ((Channel 6 ''X'' # um24c_channel_list) ! 0) =
         [Log (Err_illegal_data_type ''X'' 3),
          Session_send \<lparr>an_data = [Finite 0], an_num_samples = 1, an_digits = 0,
            an_spec_digits = 0, an_mq = SR_MQ_VOLTAGE, an_unit = SR_UNIT_VOLT, an_mqflags = 0,
            an_channels = [Channel 6 ''X'']\<rparr>]"
    using c4 unfolding x by (simp add: untyped_channel_def)
  have c: "send_channel untyped_devc (channels (profile untyped_devc) ! 1)
         ((Channel 6 ''X'' # um24c_channel_list) ! 1) =
         [Session_send \<lparr>an_data = [Finite (3 / 2)], an_num_samples = 1, an_digits = 2,
            an_spec_digits = 2, an_mq = SR_MQ_VOLTAGE, an_unit = SR_UNIT_VOLT, an_mqflags = 0,
            an_channels = [Channel 0 ''V'']\<rparr>]"
    unfolding v c5 val unfolding um24c_rows by (simp add: um24c_channel_list_def)
  have d: "samples_read (limits (fst (handle_poll_data (Channel 6 ''X'' # um24c_channel_list)
           untyped_devc))) = 1"
    using c2 start by simp
  have e: "ch_type (channels (profile untyped_devc) ! 0) = 3"
    unfolding x by (simp add: untyped_channel_def)
  show ?thesis
    using h(1,2) e a b c d by blast
qed



subsection \<open>The probe\<close>

lemma rdtech_um_probe_write_failure:
  assumes "wr serial < 0"
  shows "rdtech_um_probe serial = (Returns None, serial, [Log Err_unable_to_send_probe_request])"
  using assms by (simp add: rdtech_um_probe_def serial_write_blocking_def)

lemma rdtech_um_probe_one_exchange:
  assumes "0 \<le> wr serial"
  shows "tx (fst (snd (rdtech_um_probe serial))) = tx serial @ take (nat (wr serial)) [0xf0]"
    and "rx (fst (snd (rdtech_um_probe serial))) = drop 130 (rx serial)"
  using assms
  by (simp_all add: rdtech_um_probe_def serial_write_blocking_def serial_read_blocking_def
      g_free_def Let_def rdtech_um24c_profile_def RDTECH_UM24C_POLL_LEN_def)

lemma rdtech_um_probe_short_read:
  assumes "0 \<le> wr serial" and "length (rx serial) < 130"
  shows "fst (rdtech_um_probe serial) = Invalid_free"
    and "snd (snd (rdtech_um_probe serial)) = [Log Err_failed_to_read_probe_response]"
  using assms
  by (simp_all add: rdtech_um_probe_def serial_write_blocking_def serial_read_blocking_def
      g_free_def Let_def rdtech_um24c_profile_def RDTECH_UM24C_POLL_LEN_def)

lemma rdtech_um_probe_response:
  assumes "0 \<le> wr serial" and "130 \<le> length (rx serial)"
  shows "fst (rdtech_um_probe serial) =
           Returns (if well_formed_frame rdtech_um24c_profile (take 130 (rx serial))
                    then Some rdtech_um24c_profile else None)"
proof -
  define f where "f = take 130 (rx serial)"
  define S where "S \<longleftrightarrow> memcmp f [0x09, 0x63] 2 = 0"
  define E where "E \<longleftrightarrow> memcmp (drop 128 f) [0xff, 0xf1] 2 = 0"
  have len: "length f = 130"
    using assms(2) by (simp add: f_def)
  have s: "S \<longleftrightarrow> take 2 f = [0x09, 0x63]"
    unfolding S_def using memcmp_eq_0_iff [of 2 f "[0x09, 0x63]"] len by simp
  have e: "E \<longleftrightarrow> drop 128 f = [0xff, 0xf1]"
    unfolding E_def using memcmp_eq_0_iff [of 2 "drop 128 f" "[0xff, 0xf1]"] len by simp
  have t2: "take (Suc (Suc 0)) f = take 2 f"
    by (simp add: numeral_2_eq_2)
  have wf: "well_formed_frame rdtech_um24c_profile f \<longleftrightarrow> S \<and> E"
    unfolding s e using len
    by (simp add: t2 rdtech_um24c_profile_def RDTECH_UM24C_POLL_LEN_def well_formed_frame_def
        starts_with_marker_def ends_with_marker_def)
  have "fst (rdtech_um_probe serial) =
          Returns (if S \<and> E then Some rdtech_um24c_profile else None)"
    using assms len
    by (simp add: rdtech_um_probe_def serial_write_blocking_def serial_read_blocking_def
        Let_def rdtech_um24c_profile_def RDTECH_UM24C_POLL_LEN_def
        f_def [symmetric] S_def [symmetric] E_def [symmetric])
  then show ?thesis
    unfolding wf [symmetric] f_def .
qed

text \<open>
  C6. A port that accepts the probe request and then delivers no byte before the
  timeout: the read is short, and the probe passes its local array to \<^verbatim>\<open>g_free\<close>
  before it could return without a profile.
\<close>

theorem probe_short_read_frees_local_array:
  "rdtech_um_probe idle_port =
     (Invalid_free, \<lparr>rx = [], tx = [0xf0], wr = 1\<rparr>, [Log Err_failed_to_read_probe_response])"
  by (simp add: rdtech_um_probe_def serial_write_blocking_def serial_read_blocking_def
      g_free_def Let_def rdtech_um24c_profile_def RDTECH_UM24C_POLL_LEN_def idle_port_def)


end
